theory Spec2Isabelle
  imports Complex_Main "HOL-Library.Char_ord" "HOL-Library.List_Lexorder"
begin

section \<open>Entities (realtime\_entity\_extraction.py)\<close>

text \<open>
  The dataclass \<open>ExtractedEntities\<close>. Python floats are read as reals: no property below
  depends on rounding.
\<close>

record ExtractedEntities =
  reqs :: "string list"
  components :: "string list"
  users_mentioned :: "string list"
  topics :: "string list"
  confidence :: real
  extraction_time_ms :: real

section \<open>Strings\<close>

text \<open>
  \<open>str.lower()\<close> on the ASCII letters; every other byte is left as it is. The keywords
  searched for below are all ASCII.
\<close>

definition lower_char :: "char \<Rightarrow> char" where
  "lower_char c =
     (case map_of (zip ''ABCDEFGHIJKLMNOPQRSTUVWXYZ'' ''abcdefghijklmnopqrstuvwxyz'') c of
        None \<Rightarrow> c | Some l \<Rightarrow> l)"

definition lower :: "string \<Rightarrow> string" where
  "lower s = map lower_char s"

fun starts_with :: "string \<Rightarrow> string \<Rightarrow> bool" where
  "starts_with s [] = True"
| "starts_with [] (k # ks) = False"
| "starts_with (c # cs) (k # ks) = (c = k \<and> starts_with cs ks)"

text \<open>\<open>k in s\<close> for two strings: \<open>k\<close> occurs in \<open>s\<close> as a contiguous run.\<close>

fun str_in :: "string \<Rightarrow> string \<Rightarrow> bool" where
  "str_in k [] = (k = [])"
| "str_in k (c # cs) = (starts_with (c # cs) k \<or> str_in k cs)"

text \<open>\<open>s.endswith(k)\<close>.\<close>

definition ends_with :: "string \<Rightarrow> string \<Rightarrow> bool" where
  "ends_with s k = starts_with (rev s) (rev k)"

section \<open>Python strings as code points\<close>

text \<open>
  Where a result depends on characters beyond ASCII, a Python \<open>str\<close> is the list of its
  code points. \<open>cps\<close> reads an ASCII literal as such a list.
\<close>

type_synonym pystr = "nat list"

definition cps :: "string \<Rightarrow> pystr" where
  "cps s = map of_char s"

text \<open>
  The white space of \<open>str.isspace()\<close>, \<open>str.strip()\<close> and of \<open>\s\<close> in a regular
  expression: the control characters U+0009 to U+000D and U+001C to U+001F, the space,
  U+0085, U+00A0, U+1680, U+2000 to U+200A, U+2028, U+2029, U+202F, U+205F and U+3000.
\<close>

definition is_space :: "nat \<Rightarrow> bool" where
  "is_space c \<longleftrightarrow>
     (0x09 \<le> c \<and> c \<le> 0x0D) \<or> (0x1C \<le> c \<and> c \<le> 0x20) \<or> c = 0x85 \<or> c = 0xA0
     \<or> c = 0x1680 \<or> (0x2000 \<le> c \<and> c \<le> 0x200A) \<or> c = 0x2028 \<or> c = 0x2029
     \<or> c = 0x202F \<or> c = 0x205F \<or> c = 0x3000"

text \<open>\<open>s.strip()\<close>.\<close>

definition strip :: "pystr \<Rightarrow> pystr" where
  "strip s = rev (dropWhile is_space (rev (dropWhile is_space s)))"

section \<open>ContextMatcher (realtime\_entity\_extraction.py)\<close>

definition synonym_map :: "(string \<times> string list) list" where
  "synonym_map =
     [(''thermal'', [''heat'', ''temperature'', ''cooling'', ''dissipation'']),
      (''power'', [''supply'', ''voltage'', ''current'', ''battery'', ''electrical'']),
      (''motor'', [''actuator'', ''drive'', ''stepper'', ''servo'']),
      (''pcb'', [''board'', ''circuit'', ''layout'']),
      (''firmware'', [''software'', ''code'', ''programming'']),
      (''testing'', [''validation'', ''qa'', ''verification''])]"

text \<open>\<open>self.synonym_map.get(c, [])\<close>.\<close>

definition synonyms :: "string \<Rightarrow> string list" where
  "synonyms c = (case map_of synonym_map c of None \<Rightarrow> [] | Some ss \<Rightarrow> ss)"

text \<open>What one pass of the inner loop of \<open>_calculate_synonym_overlap\<close> adds to \<open>matches\<close>.\<close>

definition synonym_credit :: "string \<Rightarrow> string \<Rightarrow> real" where
  "synonym_credit b_comp buf_comp =
     (if b_comp = buf_comp then 1
      else let b_synonyms = synonyms b_comp; buf_synonyms = synonyms buf_comp
           in if buf_comp \<in> set b_synonyms \<or> b_comp \<in> set buf_synonyms
                 \<or> set b_synonyms \<inter> set buf_synonyms \<noteq> {}
              then 7 / 10 else 0)"

definition calculate_synonym_overlap :: "string set \<Rightarrow> string set \<Rightarrow> real" where
  "calculate_synonym_overlap b_components buffer_components =
     (let matches = (\<Sum>b_comp\<in>b_components. \<Sum>buf_comp\<in>buffer_components.
                        synonym_credit b_comp buf_comp);
          total_comparisons = card b_components * card buffer_components
      in matches / real (max total_comparisons 1))"

definition core_components :: "string set" where
  "core_components = {''motor'', ''pcb'', ''firmware'', ''power_supply''}"

definition calculate_overlap_score ::
  "ExtractedEntities \<Rightarrow> ExtractedEntities list \<Rightarrow> string \<times> real" where
  "calculate_overlap_score b_entities buffer_entities =
     (if buffer_entities = [] then (''none'', 0)
      else
        let all_buffer_reqs = (\<Union>e\<in>set buffer_entities. set (reqs e));
            all_buffer_components = (\<Union>e\<in>set buffer_entities. set (components e));
            all_buffer_topics = (\<Union>e\<in>set buffer_entities. set (topics e));
            b_reqs = set (reqs b_entities);
            req_matches = card (b_reqs \<inter> all_buffer_reqs)
        in if req_matches > 0 then (''high'', real req_matches * 2)
           else
             let b_components = set (components b_entities);
                 component_matches = card (b_components \<inter> all_buffer_components)
             in if component_matches \<ge> 2 then (''high'', real component_matches * (3 / 2))
                else if component_matches = 1 then
                  (if b_components \<inter> core_components \<inter> all_buffer_components \<noteq> {}
                   then (''high'', 3 / 2) else (''medium'', 1))
                else
                  let b_topics = set (topics b_entities);
                      topic_matches = card (b_topics \<inter> all_buffer_topics)
                  in if topic_matches \<ge> 2 then (''medium'', real topic_matches * (4 / 5))
                     else
                       let synonym_score =
                             calculate_synonym_overlap b_components all_buffer_components
                       in if synonym_score \<ge> 3 / 5 then (''medium'', synonym_score)
                          else (''none'', 0))"

definition confidence_levels :: "(string \<times> nat) list" where
  "confidence_levels = [(''high'', 3), (''medium'', 2), (''low'', 1), (''none'', 0)]"

definition threshold_levels :: "(string \<times> nat) list" where
  "threshold_levels = [(''high'', 3), (''medium'', 2), (''low'', 1)]"

text \<open>\<open>d.get(k, default)\<close> on a dictionary written as a literal.\<close>

definition dict_get :: "('k \<times> 'v) list \<Rightarrow> 'k \<Rightarrow> 'v \<Rightarrow> 'v" where
  "dict_get d k dflt = (case map_of d k of None \<Rightarrow> dflt | Some v \<Rightarrow> v)"

definition should_inject_context ::
  "ExtractedEntities \<Rightarrow> ExtractedEntities list \<Rightarrow> string \<Rightarrow> bool \<times> string \<times> real" where
  "should_inject_context b_entities buffer_entities confidence_threshold =
     (if reqs b_entities = [] \<and> components b_entities = [] \<and> topics b_entities = []
      then (False, ''none'', 0)
      else
        let (confidence, score) = calculate_overlap_score b_entities buffer_entities;
            required_level = dict_get threshold_levels confidence_threshold 2;
            actual_level = dict_get confidence_levels confidence 0;
            should_inject = (actual_level \<ge> required_level \<and> score > 0)
        in (should_inject, confidence, score))"

section \<open>Decision-worthiness (two\_tier\_orchestrator.py)\<close>

definition decision_keywords :: "string list" where
  "decision_keywords =
     [''decision'', ''decided'', ''approved'', ''selected'', ''chose'',
      ''updated'', ''changed'', ''requirement'', ''spec'', ''requirement'']"

definition is_decision_worthy :: "ExtractedEntities \<Rightarrow> string \<Rightarrow> bool" where
  "is_decision_worthy entities message_text =
     (if reqs entities \<noteq> [] then True
      else
        let has_decision_keyword =
              list_ex (\<lambda>keyword. str_in keyword (lower message_text)) decision_keywords
        in if length (components entities) \<ge> 2 \<and> has_decision_keyword then True
           else if confidence entities > 4 / 5 \<and> length (topics entities) \<ge> 2 then True
           else False)"

section \<open>Errors\<close>

text \<open>The exceptions that the modelled code can meet, as values.\<close>

datatype error =
    RedisConnectionError
  | RedisReadOnlyError
  | DatabaseError
  | ExtractionError
  | ResponderError
  | ValueError
  | AttributeError

section \<open>The Redis sorted set behind the live buffer\<close>

text \<open>
  The commands that \<open>redis_context_buffer.py\<close> sends, with the meaning the Redis
  command reference gives them. A sorted set is kept as the list of its
  \<open>(member, score)\<close> pairs in rank order: ascending score, members of equal score in
  byte order; a member occurs at most once.
\<close>

type_synonym zset = "(string \<times> real) list"

fun zinsert :: "string \<times> real \<Rightarrow> zset \<Rightarrow> zset" where
  "zinsert x [] = [x]"
| "zinsert x (y # zs) =
     (if snd x < snd y \<or> (snd x = snd y \<and> fst x < fst y) then x # y # zs
      else y # zinsert x zs)"

text \<open>\<open>ZADD\<close>: a member already present only has its score replaced.\<close>

definition zadd :: "zset \<Rightarrow> string \<Rightarrow> real \<Rightarrow> zset" where
  "zadd zs member score = zinsert (member, score) (filter (\<lambda>e. fst e \<noteq> member) zs)"

text \<open>
  The index arithmetic shared by the rank commands: negative indices count from the end,
  the range is clipped to the set, and an empty range is \<open>None\<close>. The result is the
  inclusive pair of ranks.
\<close>

definition rank_range :: "nat \<Rightarrow> int \<Rightarrow> int \<Rightarrow> (nat \<times> nat) option" where
  "rank_range llen start stop =
     (let l = int llen;
          start1 = (if start < 0 then l + start else start);
          stop1 = (if stop < 0 then l + stop else stop);
          start2 = (if start1 < 0 then 0 else start1)
      in if start2 > stop1 \<or> start2 \<ge> l then None
         else Some (nat start2, nat (if stop1 \<ge> l then l - 1 else stop1)))"

definition zremrangebyrank :: "zset \<Rightarrow> int \<Rightarrow> int \<Rightarrow> zset" where
  "zremrangebyrank zs start stop =
     (case rank_range (length zs) start stop of
        None \<Rightarrow> zs
      | Some (i, j) \<Rightarrow> take i zs @ drop (Suc j) zs)"

definition zrevrange :: "zset \<Rightarrow> int \<Rightarrow> int \<Rightarrow> zset" where
  "zrevrange zs start stop =
     (case rank_range (length zs) start stop of
        None \<Rightarrow> []
      | Some (i, j) \<Rightarrow> take (Suc j - i) (drop i (rev zs)))"

text \<open>
  The server: whether it accepts commands (\<open>ReadOnly\<close> is a replica or a server at its
  memory limit, which answers reads and refuses writes), and for every key its sorted set
  and the time at which the key expires, if one is set. A key whose expiry time has passed
  is gone for every command (\<open>now > when\<close>).
\<close>

datatype store_status = Up | ReadOnly | Down

record redis_entry =
  zs :: zset
  expire_at :: "real option"

record redis_server =
  status :: store_status
  keyspace :: "string \<Rightarrow> redis_entry option"

definition live_entry :: "redis_server \<Rightarrow> real \<Rightarrow> string \<Rightarrow> redis_entry option" where
  "live_entry srv now key =
     (case keyspace srv key of
        None \<Rightarrow> None
      | Some e \<Rightarrow>
          (case expire_at e of
             None \<Rightarrow> Some e
           | Some w \<Rightarrow> if now > w then None else Some e))"

definition write_guard :: "redis_server \<Rightarrow> error option" where
  "write_guard srv =
     (case status srv of
        Up \<Rightarrow> None | ReadOnly \<Rightarrow> Some RedisReadOnlyError | Down \<Rightarrow> Some RedisConnectionError)"

definition read_guard :: "redis_server \<Rightarrow> error option" where
  "read_guard srv =
     (case status srv of
        Up \<Rightarrow> None | ReadOnly \<Rightarrow> None | Down \<Rightarrow> Some RedisConnectionError)"

definition store_entry :: "redis_server \<Rightarrow> string \<Rightarrow> redis_entry option \<Rightarrow> redis_server" where
  "store_entry srv key e = srv\<lparr>keyspace := (keyspace srv)(key := e)\<rparr>"

definition redis_zadd ::
  "redis_server \<Rightarrow> real \<Rightarrow> string \<Rightarrow> string \<Rightarrow> real \<Rightarrow> error + redis_server" where
  "redis_zadd srv now key member score =
     (case write_guard srv of
        Some err \<Rightarrow> Inl err
      | None \<Rightarrow>
          (case live_entry srv now key of
             None \<Rightarrow> Inr (store_entry srv key (Some \<lparr>zs = [(member, score)], expire_at = None\<rparr>))
           | Some e \<Rightarrow> Inr (store_entry srv key (Some (e\<lparr>zs := zadd (zs e) member score\<rparr>)))))"

definition redis_zremrangebyrank ::
  "redis_server \<Rightarrow> real \<Rightarrow> string \<Rightarrow> int \<Rightarrow> int \<Rightarrow> error + redis_server" where
  "redis_zremrangebyrank srv now key start stop =
     (case write_guard srv of
        Some err \<Rightarrow> Inl err
      | None \<Rightarrow>
          (case live_entry srv now key of
             None \<Rightarrow> Inr (store_entry srv key None)
           | Some e \<Rightarrow>
               (let rest = zremrangebyrank (zs e) start stop
                in if rest = [] then Inr (store_entry srv key None)
                   else Inr (store_entry srv key (Some (e\<lparr>zs := rest\<rparr>))))))"

definition redis_expire ::
  "redis_server \<Rightarrow> real \<Rightarrow> string \<Rightarrow> real \<Rightarrow> error + redis_server" where
  "redis_expire srv now key seconds =
     (case write_guard srv of
        Some err \<Rightarrow> Inl err
      | None \<Rightarrow>
          (case live_entry srv now key of
             None \<Rightarrow> Inr (store_entry srv key None)
           | Some e \<Rightarrow> Inr (store_entry srv key (Some (e\<lparr>expire_at := Some (now + seconds)\<rparr>)))))"

definition redis_zrevrange ::
  "redis_server \<Rightarrow> real \<Rightarrow> string \<Rightarrow> int \<Rightarrow> int \<Rightarrow> error + zset" where
  "redis_zrevrange srv now key start stop =
     (case read_guard srv of
        Some err \<Rightarrow> Inl err
      | None \<Rightarrow>
          (case live_entry srv now key of
             None \<Rightarrow> Inr []
           | Some e \<Rightarrow> Inr (zrevrange (zs e) start stop)))"

section \<open>RedisContextBuffer (redis\_context\_buffer.py)\<close>

text \<open>
  The \<open>entities\<close> dictionary of a buffered message: every key may be missing, and the
  readers use \<open>.get(key, default)\<close>.
\<close>

record entities_dict =
  ed_reqs :: "string list option"
  ed_components :: "string list option"
  ed_users_mentioned :: "string list option"
  ed_topics :: "string list option"
  ed_confidence :: "real option"

record LiveContextMessage =
  lm_message_id :: string
  lm_user_id :: string
  lm_text :: string
  lm_entities :: entities_dict
  lm_decision_id :: "string option"
  lm_timestamp :: string
  lm_channel_id :: string

record RedisContextBuffer =
  redis_client :: "redis_server option"

definition BUFFER_TTL :: real where
  "BUFFER_TTL = 7200"

definition MAX_MESSAGES_PER_CHANNEL :: nat where
  "MAX_MESSAGES_PER_CHANNEL = 30"

definition get_channel_key :: "string \<Rightarrow> string" where
  "get_channel_key channel_id = ''channel:'' @ channel_id @ '':context''"

text \<open>
  \<open>add_message\<close>. The JSON writer \<open>to_redis_json\<close> is a parameter, and \<open>now\<close> is what
  \<open>time.time()\<close> returns; the three commands are sent at that instant. Any exception of
  a command ends the call with \<open>False\<close>, keeping what the commands before it did.
\<close>

definition add_message ::
  "(LiveContextMessage \<Rightarrow> string) \<Rightarrow> RedisContextBuffer \<Rightarrow> real \<Rightarrow> string \<Rightarrow>
     LiveContextMessage \<Rightarrow> bool \<times> RedisContextBuffer" where
  "add_message to_redis_json self now channel_id message =
     (case redis_client self of
        None \<Rightarrow> (False, self)
      | Some srv \<Rightarrow>
          (let key = get_channel_key channel_id;
               timestamp_score = now
           in case redis_zadd srv now key (to_redis_json message) timestamp_score of
                Inl err \<Rightarrow> (False, self)
              | Inr srv1 \<Rightarrow>
                  (case redis_zremrangebyrank srv1 now key 0
                          (- (int MAX_MESSAGES_PER_CHANNEL + 1)) of
                     Inl err \<Rightarrow> (False, self\<lparr>redis_client := Some srv1\<rparr>)
                   | Inr srv2 \<Rightarrow>
                       (case redis_expire srv2 now key BUFFER_TTL of
                          Inl err \<Rightarrow> (False, self\<lparr>redis_client := Some srv2\<rparr>)
                        | Inr srv3 \<Rightarrow> (True, self\<lparr>redis_client := Some srv3\<rparr>)))))"

text \<open>
  \<open>get_recent_context\<close>. The JSON reader \<open>from_redis_json\<close> is a parameter that answers
  \<open>None\<close> where the source raises \<open>JSONDecodeError\<close> or \<open>TypeError\<close>; such an entry is
  skipped. An exception of the command gives the empty list.
\<close>

definition get_recent_context ::
  "(string \<Rightarrow> LiveContextMessage option) \<Rightarrow> RedisContextBuffer \<Rightarrow> real \<Rightarrow> string \<Rightarrow>
     int \<Rightarrow> int \<Rightarrow> LiveContextMessage list" where
  "get_recent_context from_redis_json self now channel_id max_messages max_age_minutes =
     (case redis_client self of
        None \<Rightarrow> []
      | Some srv \<Rightarrow>
          (case redis_zrevrange srv now (get_channel_key channel_id) 0 (max_messages - 1) of
             Inl err \<Rightarrow> []
           | Inr raw_messages \<Rightarrow>
               if raw_messages = [] then []
               else
                 let cutoff_timestamp = now - real_of_int (max_age_minutes * 60)
                 in List.map_filter
                      (\<lambda>(raw_msg, timestamp_score).
                          if timestamp_score \<ge> cutoff_timestamp then from_redis_json raw_msg
                          else None)
                      raw_messages))"

text \<open>A run of \<open>add_message\<close> calls on one channel, each with the clock reading of its call.\<close>

fun add_messages ::
  "(LiveContextMessage \<Rightarrow> string) \<Rightarrow> RedisContextBuffer \<Rightarrow> string \<Rightarrow>
     (real \<times> LiveContextMessage) list \<Rightarrow> RedisContextBuffer" where
  "add_messages to_redis_json self channel_id [] = self"
| "add_messages to_redis_json self channel_id ((now, message) # rest) =
     add_messages to_redis_json (snd (add_message to_redis_json self now channel_id message))
       channel_id rest"

section \<open>GapDetector (pipelines/gap\_detector.py)\<close>

text \<open>
  A row of the query of \<open>_get_recent_decisions\<close>. A \<open>datetime\<close> is the number of
  microseconds since the epoch, so that a \<open>timedelta\<close> is an integer number of
  microseconds and its \<open>days\<close> field the floor of the division by a day. The decision
  text is a list of code points.
\<close>

record decision_row =
  d_decision_id :: int
  d_thread_id :: string
  d_timestamp :: int
  d_author_user_id :: string
  d_decision_type :: string
  d_decision_text :: pystr
  d_affected_components :: "string list"
  d_referenced_reqs :: "string list"
  d_user_name :: string
  d_role :: string

definition DAY_US :: int where
  "DAY_US = 86400000000"

definition timedelta_days :: "int \<Rightarrow> int" where
  "timedelta_days delta = delta div DAY_US"

text \<open>
  What the Unicode character database decides for the code points beyond ASCII: which of
  them are alphanumeric, and the lower-case form of a string that contains some of them.
\<close>

record unicode_db =
  udb_alnum :: "nat \<Rightarrow> bool"
  udb_lower :: "pystr \<Rightarrow> pystr"

definition ascii_alnum :: "nat \<Rightarrow> bool" where
  "ascii_alnum c \<longleftrightarrow>
     (0x30 \<le> c \<and> c \<le> 0x39) \<or> (0x41 \<le> c \<and> c \<le> 0x5A) \<or> (0x61 \<le> c \<and> c \<le> 0x7A)"

text \<open>\<open>\w\<close> of a regular expression on a \<open>str\<close>: alphanumeric or the underscore.\<close>

definition is_word :: "unicode_db \<Rightarrow> nat \<Rightarrow> bool" where
  "is_word db c = (if c < 128 then ascii_alnum c \<or> c = 0x5F else udb_alnum db c)"

text \<open>\<open>s.lower()\<close> on a list of code points.\<close>

definition py_lower :: "unicode_db \<Rightarrow> pystr \<Rightarrow> pystr" where
  "py_lower db s =
     (if list_all (\<lambda>c. c < 128) s
      then map (\<lambda>c. if 0x41 \<le> c \<and> c \<le> 0x5A then c + 32 else c) s
      else udb_lower db s)"

fun begins_with :: "'a list \<Rightarrow> 'a list \<Rightarrow> bool" where
  "begins_with s [] = True"
| "begins_with [] (k # ks) = False"
| "begins_with (c # cs) (k # ks) = (c = k \<and> begins_with cs ks)"

text \<open>\<open>k in s\<close> for two lists of code points.\<close>

fun occurs_in :: "'a list \<Rightarrow> 'a list \<Rightarrow> bool" where
  "occurs_in k [] = (k = [])"
| "occurs_in k (c # cs) = (begins_with (c # cs) k \<or> occurs_in k cs)"

subsection \<open>The regular expression of \<open>_detect_before_after_conflicts\<close>\<close>

text \<open>
  The search is \<open>re.findall\<close> with the flag \<open>IGNORECASE\<close> for the pattern
  \<^verbatim>\<open>(\w+(?:\.\w+)*)\s*(?:to|ARROW)\s*(\w+(?:\.\w+)*)\<close>, where \<open>ARROW\<close> is the
  character U+2192. A token \<^verbatim>\<open>\w+(?:\.\w+)*\<close> is a run of word characters in which single
  dots may stand between two word characters.

  \<open>chain_more\<close> is the number of further code points that the greedy token takes once
  it has taken a word character.
\<close>

fun chain_more :: "unicode_db \<Rightarrow> pystr \<Rightarrow> nat" where
  "chain_more db [] = 0"
| "chain_more db [c] = (if is_word db c then 1 else 0)"
| "chain_more db (c # d # ds) =
     (if is_word db c then Suc (chain_more db (d # ds))
      else if c = 0x2E \<and> is_word db d then Suc (Suc (chain_more db ds))
      else 0)"

text \<open>The length of the longest token at the start of \<open>s\<close>; 0 when there is none.\<close>

definition token_len :: "unicode_db \<Rightarrow> pystr \<Rightarrow> nat" where
  "token_len db s =
     (case s of [] \<Rightarrow> 0 | c # cs \<Rightarrow> if is_word db c then Suc (chain_more db cs) else 0)"

text \<open>
  The length of the separator \<open>to\<close> (in either case) or U+2192 at the start of \<open>s\<close>; 0
  when there is none.
\<close>

definition separator_len :: "pystr \<Rightarrow> nat" where
  "separator_len s =
     (case s of
        [] \<Rightarrow> 0
      | t # rest \<Rightarrow>
          if (t = 0x74 \<or> t = 0x54)
             \<and> (case rest of [] \<Rightarrow> False | o' # _ \<Rightarrow> o' = 0x6F \<or> o' = 0x4F)
          then 2
          else if t = 0x2192 then 1 else 0)"

text \<open>
  The part of the pattern after the first group, matched at \<open>r\<close>: white space, the
  separator, white space, and the second token, which is greedy and has nothing after it.
  The white space can only be taken whole, because no white-space character begins a
  separator or a token. The result is the second group and the number of code points taken.
\<close>

definition rest_match :: "unicode_db \<Rightarrow> pystr \<Rightarrow> (pystr \<times> nat) option" where
  "rest_match db r =
     (let ws1 = length (takeWhile is_space r);
          r1 = drop ws1 r;
          sep = separator_len r1
      in if sep = 0 then None
         else
           let r2 = drop sep r1;
               ws2 = length (takeWhile is_space r2);
               r3 = drop ws2 r2;
               n = token_len db r3
           in if n = 0 then None else Some (take n r3, ws1 + sep + ws2 + n))"

text \<open>
  Backtracking in the first group: it gives up one code point at a time, and each end that
  stands behind a word character is tried, the longest first.
\<close>

fun try_ends :: "unicode_db \<Rightarrow> pystr \<Rightarrow> nat \<Rightarrow> (pystr \<times> pystr \<times> nat) option" where
  "try_ends db s 0 = None"
| "try_ends db s (Suc p) =
     (if is_word db (s ! p) then
        (case rest_match db (drop (Suc p) s) of
           Some (g2, n) \<Rightarrow> Some (take (Suc p) s, g2, Suc p + n)
         | None \<Rightarrow> try_ends db s p)
      else try_ends db s p)"

text \<open>The match that starts at the first code point of \<open>s\<close>: both groups and its length.\<close>

definition match_at :: "unicode_db \<Rightarrow> pystr \<Rightarrow> (pystr \<times> pystr \<times> nat) option" where
  "match_at db s = try_ends db s (token_len db s)"

text \<open>\<open>re.findall\<close>: the matches from left to right, each search starting where the last
  match ended.\<close>

fun findall_changes :: "unicode_db \<Rightarrow> pystr \<Rightarrow> (pystr \<times> pystr) list" where
  "findall_changes db [] = []"
| "findall_changes db (c # cs) =
     (case match_at db (c # cs) of
        None \<Rightarrow> findall_changes db cs
      | Some (g1, g2, n) \<Rightarrow> (g1, g2) # findall_changes db (drop (n - 1) cs))"


subsection \<open>Conflicts\<close>

text \<open>
  \<open>_format_decision_summary\<close>; the timestamp is kept as it is, where the source renders it
  with \<open>isoformat()\<close>.
\<close>

record decision_summary =
  s_decision_id :: int
  s_author :: string
  s_timestamp :: int
  s_text :: pystr
  s_type :: string

definition format_decision_summary :: "decision_row \<Rightarrow> decision_summary" where
  "format_decision_summary decision =
     \<lparr>s_decision_id = d_decision_id decision,
      s_author = d_user_name decision,
      s_timestamp = d_timestamp decision,
      s_text = take 100 (d_decision_text decision) @ cps ''...'',
      s_type = d_decision_type decision\<rparr>"

text \<open>
  A conflict dictionary. \<open>time_between_decisions\<close> holds the number of days that the
  source prints in front of the word \<open>days\<close>.
\<close>

record conflict =
  c_type :: string
  c_requirement :: "string option"
  c_component :: "string option"
  c_conflict_description :: pystr
  c_decisions :: "decision_summary list"
  c_severity :: string
  c_timestamp :: int
  c_resolution_needed :: bool
  c_recommendation :: pystr
  c_time_between_decisions :: "int option"

definition contradiction_patterns :: "(string \<times> string) list" where
  "contradiction_patterns =
     [(''increase'', ''decrease''), (''add'', ''remove''), (''enable'', ''disable''),
      (''approve'', ''reject''), (''accept'', ''decline'')]"

text \<open>The test of the inner loop of \<open>_analyze_requirement_conflicts\<close>: one word of the
  pattern occurs in the lower-cased text of one decision and the other word in that of the
  other decision.\<close>

definition contradicts ::
  "unicode_db \<Rightarrow> string \<times> string \<Rightarrow> decision_row \<Rightarrow> decision_row \<Rightarrow> bool" where
  "contradicts db pattern previous current =
     (let current_text = py_lower db (d_decision_text current);
          previous_text = py_lower db (d_decision_text previous);
          pos_word = cps (fst pattern);
          neg_word = cps (snd pattern)
      in (occurs_in pos_word current_text \<and> occurs_in neg_word previous_text)
         \<or> (occurs_in neg_word current_text \<and> occurs_in pos_word previous_text))"

text \<open>The body of the two nested loops of \<open>_analyze_requirement_conflicts\<close> for one pair of
  neighbours and one pattern.\<close>

definition requirement_conflict ::
  "unicode_db \<Rightarrow> string \<Rightarrow> decision_row \<Rightarrow> decision_row \<Rightarrow> string \<times> string \<Rightarrow> conflict list" where
  "requirement_conflict db requirement previous current pattern =
     (if contradicts db pattern previous current
      then
        (let time_diff = d_timestamp current - d_timestamp previous;
             severity = (if timedelta_days time_diff < 1 then ''critical'' else ''warning'')
         in [\<lparr>c_type = ''requirement_conflict'',
               c_requirement = Some requirement,
               c_component = None,
               c_conflict_description = cps (''Contradictory decisions for '' @ requirement),
               c_decisions = [format_decision_summary previous,
                              format_decision_summary current],
               c_severity = severity,
               c_timestamp = d_timestamp current,
               c_resolution_needed = True,
               c_recommendation =
                 cps (''Resolve contradictory requirements for '' @ requirement),
               c_time_between_decisions = Some (timedelta_days time_diff)\<rparr>])
      else [])"

text \<open>The pairs \<open>(sorted[i-1], sorted[i])\<close> for \<open>i\<close> from 1.\<close>

definition neighbours :: "'a list \<Rightarrow> ('a \<times> 'a) list" where
  "neighbours xs = zip xs (tl xs)"

definition analyze_requirement_conflicts ::
  "unicode_db \<Rightarrow> string \<Rightarrow> decision_row list \<Rightarrow> conflict list" where
  "analyze_requirement_conflicts db requirement decisions =
     (if length decisions \<le> 1 then []
      else
        let sorted_decisions = sort_key d_timestamp decisions
        in concat (map (\<lambda>(previous, current).
                          concat (map (requirement_conflict db requirement previous current)
                                    contradiction_patterns))
                     (neighbours sorted_decisions)))"

text \<open>An entry of \<open>changes\<close> in \<open>_detect_before_after_conflicts\<close>.\<close>

record change =
  ch_decision :: decision_row
  ch_before :: pystr
  ch_after :: pystr
  ch_timestamp :: int

definition extract_changes :: "unicode_db \<Rightarrow> decision_row list \<Rightarrow> change list" where
  "extract_changes db decisions =
     concat (map (\<lambda>decision.
                    map (\<lambda>(before, after).
                           \<lparr>ch_decision = decision, ch_before = py_lower db before,
                            ch_after = py_lower db after, ch_timestamp = d_timestamp decision\<rparr>)
                      (findall_changes db (d_decision_text decision)))
               decisions)"

text \<open>\<open>for i, x in enumerate(xs): for y in xs[i+1:]\<close>.\<close>

fun later_pairs :: "'a list \<Rightarrow> ('a \<times> 'a) list" where
  "later_pairs [] = []"
| "later_pairs (x # xs) = map (Pair x) xs @ later_pairs xs"

definition circular_conflict :: "change \<Rightarrow> change \<Rightarrow> conflict list" where
  "circular_conflict change1 change2 =
     (if ch_before change1 = ch_after change2 \<and> ch_after change1 = ch_before change2
      then [\<lparr>c_type = ''circular_change'',
             c_requirement = None,
             c_component = None,
             c_conflict_description =
               cps ''Circular changes detected: '' @ ch_before change1
                 @ [0x20, 0x2194, 0x20] @ ch_after change1,
             c_decisions = [format_decision_summary (ch_decision change1),
                            format_decision_summary (ch_decision change2)],
             c_severity = ''critical'',
             c_timestamp = max (ch_timestamp change1) (ch_timestamp change2),
             c_resolution_needed = True,
             c_recommendation = cps ''Clarify final value and reasoning for the change'',
             c_time_between_decisions = None\<rparr>]
      else [])"

definition detect_before_after_conflicts :: "unicode_db \<Rightarrow> decision_row list \<Rightarrow> conflict list" where
  "detect_before_after_conflicts db decisions =
     (let changes = extract_changes db decisions
      in if length changes > 1
         then concat (map (\<lambda>(change1, change2). circular_conflict change1 change2)
                        (later_pairs changes))
         else [])"

text \<open>\<open>max(timestamps)\<close>; the source evaluates it on lists with an element only.\<close>

definition list_max :: "int list \<Rightarrow> int" where
  "list_max ts = (case ts of [] \<Rightarrow> 0 | t # rest \<Rightarrow> foldl max t rest)"

text \<open>
  \<open>_analyze_component_conflicts\<close>: the approval/rejection conflict, the circular changes,
  each given the component, and the duplicate decisions, in this order.
\<close>

definition analyze_component_conflicts ::
  "unicode_db \<Rightarrow> string \<Rightarrow> decision_row list \<Rightarrow> conflict list" where
  "analyze_component_conflicts db component decisions =
     (let decision_types = map d_decision_type decisions;
          timestamps = map d_timestamp decisions;
          has_approval = list_ex (str_in ''approval'') decision_types;
          has_rejection =
            list_ex (\<lambda>d. occurs_in (cps ''reject'') (py_lower db (d_decision_text d))) decisions;
          approval_conflicts =
            (if has_approval \<and> has_rejection
             then [\<lparr>c_type = ''component_conflict'',
                    c_requirement = None,
                    c_component = Some component,
                    c_conflict_description =
                      cps (''Conflicting approval/rejection decisions for '' @ component),
                    c_decisions = map format_decision_summary decisions,
                    c_severity = ''critical'',
                    c_timestamp = list_max timestamps,
                    c_resolution_needed = True,
                    c_recommendation =
                      cps (''Clarify current status of '' @ component
                           @ '' - approved or rejected?''),
                    c_time_between_decisions = None\<rparr>]
             else []);
          before_after_conflicts =
            map (\<lambda>conflict. conflict\<lparr>c_component := Some component\<rparr>)
              (detect_before_after_conflicts db decisions);
          duplicate_conflicts =
            (if card (set (map d_decision_text decisions)) < length decisions
             then
               (let recent_window = list_max timestamps - DAY_US;
                    recent_decisions = filter (\<lambda>d. d_timestamp d > recent_window) decisions
                in if length recent_decisions > 1
                   then [\<lparr>c_type = ''duplicate_decision'',
                          c_requirement = None,
                          c_component = Some component,
                          c_conflict_description =
                            cps (''Multiple recent decisions for '' @ component
                                 @ '' may indicate confusion''),
                          c_decisions = map format_decision_summary recent_decisions,
                          c_severity = ''warning'',
                          c_timestamp = list_max timestamps,
                          c_resolution_needed = False,
                          c_recommendation =
                            cps (''Verify that latest decision for '' @ component
                                 @ '' is understood by all stakeholders''),
                          c_time_between_decisions = None\<rparr>]
                   else [])
             else [])
      in approval_conflicts @ before_after_conflicts @ duplicate_conflicts)"

text \<open>
  A Python dictionary of lists as the list of its items in insertion order:
  \<open>if k not in d: d[k] = []\<close> followed by \<open>d[k].append(v)\<close>.
\<close>

fun dict_append :: "'k \<Rightarrow> 'v \<Rightarrow> ('k \<times> 'v list) list \<Rightarrow> ('k \<times> 'v list) list" where
  "dict_append k v [] = [(k, [v])]"
| "dict_append k v ((k', vs) # d) =
     (if k' = k then (k', vs @ [v]) # d else (k', vs) # dict_append k v d)"

text \<open>The grouping loop of \<open>_detect_conflicts\<close> for one of its two dictionaries.\<close>

definition group_by :: "('a \<Rightarrow> 'k list) \<Rightarrow> 'a list \<Rightarrow> ('k \<times> 'a list) list" where
  "group_by keys decisions =
     foldl (\<lambda>d decision. foldl (\<lambda>d' k. dict_append k decision d') d (keys decision))
       [] decisions"

text \<open>
  \<open>list.sort(key=..., reverse=True)\<close> with the key \<open>(severity == 'warning', timestamp)\<close>
  on the conflicts: a stable sort into descending order of the key.
\<close>

definition conflict_key_less :: "conflict \<Rightarrow> conflict \<Rightarrow> bool" where
  "conflict_key_less x y =
     (let a = (c_severity x = ''warning''); b = (c_severity y = ''warning'')
      in (\<not> a \<and> b) \<or> (a = b \<and> c_timestamp x < c_timestamp y))"

fun insert_conflict :: "conflict \<Rightarrow> conflict list \<Rightarrow> conflict list" where
  "insert_conflict x [] = [x]"
| "insert_conflict x (y # ys) =
     (if conflict_key_less x y then y # insert_conflict x ys else x # y # ys)"

definition sort_conflicts :: "conflict list \<Rightarrow> conflict list" where
  "sort_conflicts conflicts = foldr insert_conflict conflicts []"

text \<open>\<open>_detect_conflicts\<close>; the cursor is not used.\<close>

definition detect_conflicts :: "unicode_db \<Rightarrow> decision_row list \<Rightarrow> conflict list" where
  "detect_conflicts db decisions =
     (let component_decisions = group_by d_affected_components decisions;
          requirement_decisions = group_by d_referenced_reqs decisions;
          component_conflicts =
            concat (map (\<lambda>(component, comp_decisions).
                           if length comp_decisions > 1
                           then analyze_component_conflicts db component comp_decisions
                           else [])
                      component_decisions);
          req_conflicts =
            concat (map (\<lambda>(req, req_decisions).
                           if length req_decisions > 1
                           then analyze_requirement_conflicts db req req_decisions
                           else [])
                      requirement_decisions)
      in sort_conflicts (component_conflicts @ req_conflicts))"

subsection \<open>Missing stakeholders\<close>

text \<open>Rows of \<open>user_profiles\<close> and of \<open>slack_messages\<close>.\<close>

record user_profile =
  u_user_id :: string
  u_user_name :: string
  u_role :: string
  u_owned_components :: "string list"

record slack_message =
  sm_thread_id :: string
  sm_user_id :: string

text \<open>
  A Python dictionary as the list of its items in insertion order: storing under a key that
  is present replaces the value where it stands.
\<close>

fun dict_set :: "'k \<Rightarrow> 'v \<Rightarrow> ('k \<times> 'v) list \<Rightarrow> ('k \<times> 'v) list" where
  "dict_set k v [] = [(k, v)]"
| "dict_set k v ((k', v') # d) = (if k' = k then (k, v) # d else (k', v') # dict_set k v d)"

text \<open>\<open>{row['user_id']: dict(row) for row in cursor.fetchall()}\<close>.\<close>

definition users_by_id :: "user_profile list \<Rightarrow> (string \<times> user_profile) list" where
  "users_by_id rows = foldl (\<lambda>d row. dict_set (u_user_id row) row d) [] rows"

record missing_entry =
  m_user_id :: string
  m_user_name :: string
  m_owned_component :: string
  m_role :: string

record stakeholder_gap =
  g_decision_id :: int
  g_decision_text :: pystr
  g_thread_id :: string
  g_timestamp :: int
  g_author :: string
  g_affected_components :: "string list"
  g_missing_stakeholders :: "missing_entry list"
  g_severity :: string
  g_participants_count :: nat
  g_recommendation :: string

text \<open>\<open>sep.join(xs)\<close>.\<close>

fun join :: "string \<Rightarrow> string list \<Rightarrow> string" where
  "join sep [] = []"
| "join sep [x] = x"
| "join sep (x # y # ys) = x @ sep @ join sep (y # ys)"

text \<open>
  \<open>_generate_stakeholder_recommendation\<close>. The source joins a \<open>set\<close> of roles, whose
  order Python does not fix; the roles are listed here in order of first appearance.
\<close>

definition generate_stakeholder_recommendation :: "missing_entry list \<Rightarrow> string list \<Rightarrow> string" where
  "generate_stakeholder_recommendation missing comps =
     (case missing of
        [m] \<Rightarrow> ''Contact '' @ m_user_name m @ '' ('' @ m_role m @ '') about ''
                 @ m_owned_component m @ '' impact''
      | _ \<Rightarrow> ''Schedule review meeting with '' @ join '', '' (remdups (map m_role missing))
               @ '' teams to discuss '' @ join '', '' comps @ '' changes'')"

text \<open>\<open>SELECT DISTINCT user_id FROM slack_messages WHERE thread_id = %s\<close>, as a set.\<close>

definition thread_participants :: "slack_message list \<Rightarrow> string \<Rightarrow> string set" where
  "thread_participants messages thread_id =
     set (map sm_user_id (filter (\<lambda>row. sm_thread_id row = thread_id) messages))"

definition component_owners ::
  "(string \<times> user_profile) list \<Rightarrow> string list \<Rightarrow> (string \<times> string \<times> string) list" where
  "component_owners users affected_components =
     concat (map (\<lambda>component.
                    concat (map (\<lambda>(user_id, user_data).
                                   if component \<in> set (u_owned_components user_data)
                                   then [(user_id, u_user_name user_data, component)] else [])
                              users))
               affected_components)"

text \<open>\<open>users[user_id]['role']\<close>, for a key that is present.\<close>

definition role_of :: "(string \<times> user_profile) list \<Rightarrow> string \<Rightarrow> string" where
  "role_of users user_id = (case map_of users user_id of None \<Rightarrow> [] | Some u \<Rightarrow> u_role u)"

definition missing_for ::
  "(string \<times> user_profile) list \<Rightarrow> slack_message list \<Rightarrow> decision_row \<Rightarrow> missing_entry list" where
  "missing_for users messages decision =
     (let participants = thread_participants messages (d_thread_id decision)
      in map (\<lambda>(user_id, user_name, component).
                \<lparr>m_user_id = user_id, m_user_name = user_name, m_owned_component = component,
                 m_role = role_of users user_id\<rparr>)
           (filter (\<lambda>(user_id, user_name, component).
                      user_id \<notin> participants \<and> user_id \<noteq> d_author_user_id decision)
              (component_owners users (d_affected_components decision))))"

text \<open>The body of the loop over the decisions: the gap appended for one decision, if any.\<close>

definition stakeholder_gap_for ::
  "(string \<times> user_profile) list \<Rightarrow> slack_message list \<Rightarrow> decision_row \<Rightarrow> stakeholder_gap list" where
  "stakeholder_gap_for users messages decision =
     (let missing = missing_for users messages decision
      in if missing \<noteq> [] then
           (let severity =
                  (if length missing > 2
                      \<or> list_ex (\<lambda>m. ends_with (role_of users (m_user_id m)) ''Lead'') missing
                   then ''critical'' else ''warning'')
            in [\<lparr>g_decision_id = d_decision_id decision,
                  g_decision_text = take 100 (d_decision_text decision) @ cps ''...'',
                  g_thread_id = d_thread_id decision,
                  g_timestamp = d_timestamp decision,
                  g_author = d_user_name decision,
                  g_affected_components = d_affected_components decision,
                  g_missing_stakeholders = missing,
                  g_severity = severity,
                  g_participants_count =
                    card (thread_participants messages (d_thread_id decision)),
                  g_recommendation =
                    generate_stakeholder_recommendation missing
                      (d_affected_components decision)\<rparr>])
         else [])"

text \<open>
  \<open>list.sort(key=..., reverse=True)\<close> with the key \<open>(severity == 'warning', timestamp)\<close>:
  a stable sort into descending order of the key.
\<close>

definition gap_key_less :: "stakeholder_gap \<Rightarrow> stakeholder_gap \<Rightarrow> bool" where
  "gap_key_less x y =
     (let a = (g_severity x = ''warning''); b = (g_severity y = ''warning'')
      in (\<not> a \<and> b) \<or> (a = b \<and> g_timestamp x < g_timestamp y))"

fun insert_desc :: "stakeholder_gap \<Rightarrow> stakeholder_gap list \<Rightarrow> stakeholder_gap list" where
  "insert_desc x [] = [x]"
| "insert_desc x (y # ys) = (if gap_key_less x y then y # insert_desc x ys else x # y # ys)"

definition sort_desc :: "stakeholder_gap list \<Rightarrow> stakeholder_gap list" where
  "sort_desc gaps = foldr insert_desc gaps []"

definition detect_missing_stakeholders ::
  "user_profile list \<Rightarrow> slack_message list \<Rightarrow> decision_row list \<Rightarrow> stakeholder_gap list" where
  "detect_missing_stakeholders user_rows messages decisions =
     (let users = users_by_id user_rows
      in sort_desc (concat (map (stakeholder_gap_for users messages) decisions)))"


section \<open>HybridRetrieval (hybrid\_retrieval.py)\<close>

text \<open>
  A row of the table \<open>decisions\<close> with the columns that \<open>sql_filter\<close> reads, and the
  rows of \<open>user_profiles\<close> that \<open>get_user_components\<close> reads. A column that may be
  \<open>NULL\<close> is an option.
\<close>

record decisions_row =
  r_decision_id :: int
  r_decision_text :: string
  r_author_name :: string
  r_author_role :: string
  r_author_user_id :: string
  r_decision_type :: string
  r_affected_components :: "string list"
  r_referenced_reqs :: "string list"
  r_timestamp :: int
  r_before_after :: "(string \<times> string) list option"
  r_embedding :: "real list option"
  r_similarity_score :: "real option"
  r_embedding_status :: string

record database =
  decisions_table :: "decisions_row list"
  profiles_table :: "(string \<times> string list) list"

record RetrievalResult =
  rr_decision_id :: int
  rr_decision_text :: string
  rr_author_name :: string
  rr_author_role :: string
  rr_affected_components :: "string list"
  rr_referenced_reqs :: "string list"
  rr_timestamp :: int
  rr_before_after :: "(string \<times> string) list"
  rr_similarity_score :: real
  rr_embedding :: "real list option"

record RetrievalStats =
  total_time_ms :: real
  sql_filter_time_ms :: real
  semantic_search_time_ms :: real
  candidates_found :: nat
  final_results :: nat
  query_type :: string

text \<open>
  \<open>sql_filter\<close>: the query it builds, run on the table. \<open>now\<close> is \<open>datetime.now()\<close> in
  microseconds. Rows of equal timestamp keep their order in the table, where SQL leaves
  the order open. A negative \<open>LIMIT\<close> is an error of the database, and a pool that was
  never initialised has no \<open>acquire\<close>.
\<close>

definition sql_filter ::
  "database option \<Rightarrow> int \<Rightarrow> string list \<Rightarrow> int \<Rightarrow> string option \<Rightarrow> string option \<Rightarrow> int
     \<Rightarrow> error + decisions_row list" where
  "sql_filter db_pool now user_components time_filter_days author_filter decision_type limit =
     (case db_pool of
        None \<Rightarrow> Inl AttributeError
      | Some db \<Rightarrow>
          if limit < 0 then Inl DatabaseError
          else
            let matching =
                  filter (\<lambda>row.
                      r_embedding_status row = ''embedded''
                      \<and> (user_components \<noteq> [] \<longrightarrow>
                            set (r_affected_components row) \<inter> set user_components \<noteq> {})
                      \<and> r_timestamp row \<ge> now - time_filter_days * 86400000000
                      \<and> (case author_filter of
                            None \<Rightarrow> True
                          | Some a \<Rightarrow> if a = [] then True else r_author_user_id row = a)
                      \<and> (case decision_type of
                            None \<Rightarrow> True
                          | Some t \<Rightarrow> if t = [] then True else r_decision_type row = t))
                    (decisions_table db)
            in Inr (take (nat limit) (sort_key (\<lambda>row. - r_timestamp row) matching)))"

definition get_user_components :: "database option \<Rightarrow> string \<Rightarrow> error + string list" where
  "get_user_components db_pool user_id =
     (case db_pool of
        None \<Rightarrow> Inl AttributeError
      | Some db \<Rightarrow>
          (case map_of (profiles_table db) user_id of
             None \<Rightarrow> Inr []
           | Some owned_components \<Rightarrow> Inr owned_components))"

text \<open>The first step of \<open>hybrid_search\<close>: the caller's components, or the user's own.\<close>

definition resolve_components ::
  "database option \<Rightarrow> string \<Rightarrow> string list option \<Rightarrow> error + string list" where
  "resolve_components db_pool user_id user_components =
     (case user_components of
        None \<Rightarrow> get_user_components db_pool user_id
      | Some cs \<Rightarrow> Inr cs)"

text \<open>\<open>xs[:n]\<close>: a negative \<open>n\<close> counts from the end.\<close>

definition py_prefix :: "'a list \<Rightarrow> int \<Rightarrow> 'a list" where
  "py_prefix xs n = (if n \<ge> 0 then take (nat n) xs else take (length xs - nat (- n)) xs)"

text \<open>\<open>numpy.dot\<close> of two vectors, which raises \<open>ValueError\<close> when the shapes differ.\<close>

definition np_dot :: "real list \<Rightarrow> real list \<Rightarrow> error + real" where
  "np_dot u v =
     (if length u = length v then Inr (sum_list (map (\<lambda>(a, b). a * b) (zip u v)))
      else Inl ValueError)"

definition result_with ::
  "decisions_row \<Rightarrow> real \<Rightarrow> real list option \<Rightarrow> RetrievalResult" where
  "result_with candidate similarity emb =
     \<lparr>rr_decision_id = r_decision_id candidate,
      rr_decision_text = r_decision_text candidate,
      rr_author_name = r_author_name candidate,
      rr_author_role = r_author_role candidate,
      rr_affected_components = r_affected_components candidate,
      rr_referenced_reqs = r_referenced_reqs candidate,
      rr_timestamp = r_timestamp candidate,
      rr_before_after = (case r_before_after candidate of None \<Rightarrow> [] | Some d \<Rightarrow> d),
      rr_similarity_score = similarity,
      rr_embedding = emb\<rparr>"

text \<open>The result built in the branch of \<open>hybrid_search\<close> that skips the semantic stage.\<close>

definition sql_only_result :: "decisions_row \<Rightarrow> RetrievalResult" where
  "sql_only_result candidate =
     result_with candidate
       (case r_similarity_score candidate of None \<Rightarrow> 0 | Some x \<Rightarrow> x) None"

text \<open>The loop of \<open>semantic_search\<close> over the candidates; the first exception ends it.\<close>

fun score_candidates ::
  "real list \<Rightarrow> decisions_row list \<Rightarrow> error + RetrievalResult list" where
  "score_candidates query_embedding [] = Inr []"
| "score_candidates query_embedding (candidate # rest) =
     (case (case r_embedding candidate of
              None \<Rightarrow> Inr 0
            | Some e \<Rightarrow> if e = [] then Inr 0 else np_dot query_embedding e) of
        Inl err \<Rightarrow> Inl err
      | Inr similarity \<Rightarrow>
          (case score_candidates query_embedding rest of
             Inl err \<Rightarrow> Inl err
           | Inr results \<Rightarrow>
               Inr (result_with candidate similarity (r_embedding candidate) # results)))"

text \<open>
  \<open>semantic_search\<close>. The encoder of the sentence-transformers model is the parameter
  \<open>encode\<close>. \<open>results.sort(key=..., reverse=True)\<close> is stable.
\<close>

definition semantic_search ::
  "(pystr \<Rightarrow> real list) \<Rightarrow> pystr \<Rightarrow> decisions_row list \<Rightarrow> int
     \<Rightarrow> error + RetrievalResult list" where
  "semantic_search encode query_text candidates limit =
     (if candidates = [] then Inr []
      else
        let query_embedding = encode query_text
        in case score_candidates query_embedding candidates of
             Inl err \<Rightarrow> Inl err
           | Inr results \<Rightarrow>
               Inr (py_prefix (sort_key (\<lambda>x. - rr_similarity_score x) results) limit))"

text \<open>
  \<open>hybrid_search\<close>. The query text is a list of code points, and \<open>not
  query_text.strip()\<close> is \<open>strip query_text = []\<close>. \<open>perf i\<close> is what the \<open>i\<close>-th call of \<open>time.perf_counter()\<close>
  returns, counted from 0 at \<open>total_start\<close>: \<open>sql_filter\<close> reads the counter twice, and
  \<open>semantic_search\<close> twice unless it has no candidates.
\<close>

definition hybrid_search ::
  "database option \<Rightarrow> (pystr \<Rightarrow> real list) \<Rightarrow> (nat \<Rightarrow> real) \<Rightarrow> int \<Rightarrow> string \<Rightarrow> pystr
     \<Rightarrow> string list option \<Rightarrow> int \<Rightarrow> int \<Rightarrow> error + RetrievalResult list \<times> RetrievalStats" where
  "hybrid_search db_pool encode perf now user_id query_text user_components time_filter_days
     limit =
     (let total_start = perf 0
      in case resolve_components db_pool user_id user_components of
           Inl err \<Rightarrow> Inl err
         | Inr comps \<Rightarrow>
             (let sql_start = perf 1
              in case sql_filter db_pool now comps time_filter_days None None
                        (min 100 (limit * 5)) of
                   Inl err \<Rightarrow> Inl err
                 | Inr candidates \<Rightarrow>
                     (let sql_time_ms = (perf 4 - sql_start) * 1000
                      in if strip query_text = [] then
                           (let results = map sql_only_result (py_prefix candidates limit);
                                total_time_ms = (perf 5 - total_start) * 1000
                            in Inr (results,
                                    \<lparr>total_time_ms = total_time_ms,
                                     sql_filter_time_ms = sql_time_ms,
                                     semantic_search_time_ms = 0,
                                     candidates_found = length candidates,
                                     final_results = length results,
                                     query_type = ''sql_only''\<rparr>))
                         else
                           (let semantic_start = perf 5
                            in case semantic_search encode query_text candidates limit of
                                 Inl err \<Rightarrow> Inl err
                               | Inr results \<Rightarrow>
                                   (let k = (if candidates = [] then 6 else 8);
                                        semantic_time_ms = (perf k - semantic_start) * 1000;
                                        total_time_ms = (perf (Suc k) - total_start) * 1000
                                    in Inr (results,
                                            \<lparr>total_time_ms = total_time_ms,
                                             sql_filter_time_ms = sql_time_ms,
                                             semantic_search_time_ms = semantic_time_ms,
                                             candidates_found = length candidates,
                                             final_results = length results,
                                             query_type = ''hybrid''\<rparr>))))))"

section \<open>TwoTierOrchestrator (two\_tier\_orchestrator.py)\<close>























section \<open>Vocabulary for the buffer properties\<close>

text \<open>The sorted-set entry that an add at clock reading \<open>fst a\<close> of message \<open>snd a\<close> writes.\<close>

definition entry :: "(LiveContextMessage \<Rightarrow> string) \<Rightarrow> real \<times> LiveContextMessage \<Rightarrow> string \<times> real" where
  "entry enc a = (enc (snd a), fst a)"

text \<open>
  A run of adds made by a clock that strictly increases and never pauses longer than the
  TTL of the key after the reading \<open>t0\<close>: the key does not expire during the run.
\<close>

fun steady :: "real \<Rightarrow> (real \<times> LiveContextMessage) list \<Rightarrow> bool" where
  "steady t0 [] = True"
| "steady t0 (a # rest) = (t0 < fst a \<and> fst a \<le> t0 + BUFFER_TTL \<and> steady (fst a) rest)"

definition steady_clock :: "(real \<times> LiveContextMessage) list \<Rightarrow> bool" where
  "steady_clock adds = (case adds of [] \<Rightarrow> True | a # rest \<Rightarrow> steady (fst a) rest)"

text \<open>The channel's key holds exactly the sorted set \<open>Z\<close>, expires at \<open>w\<close>, on a server that is up.\<close>

definition chan_is :: "RedisContextBuffer \<Rightarrow> string \<Rightarrow> zset \<Rightarrow> real \<Rightarrow> bool" where
  "chan_is self ch Z w \<longleftrightarrow>
     (\<exists>srv. redis_client self = Some srv \<and> status srv = Up
            \<and> keyspace srv (get_channel_key ch) = Some \<lparr>zs = Z, expire_at = Some w\<rparr>)"

text \<open>What the server stores under the channel's key, expired or not.\<close>

definition channel_entries :: "RedisContextBuffer \<Rightarrow> string \<Rightarrow> zset" where
  "channel_entries self ch =
     (case redis_client self of
        None \<Rightarrow> []
      | Some srv \<Rightarrow> (case keyspace srv (get_channel_key ch) of None \<Rightarrow> [] | Some e \<Rightarrow> zs e))"




section \<open>Vocabulary for the conflict properties\<close>

text \<open>
  The decisions filed under the key \<open>k\<close> by the grouping loop: each decision once for every
  occurrence of \<open>k\<close> among its keys, in the order of the decisions.
\<close>

definition members :: "('a \<Rightarrow> 'k list) \<Rightarrow> 'k \<Rightarrow> 'a list \<Rightarrow> 'a list" where
  "members keys k decisions =
     concat (map (\<lambda>decision. map (\<lambda>_. decision) (filter (\<lambda>k'. k' = k) (keys decision)))
               decisions)"


section \<open>Fixtures for the concrete evaluations\<close>

definition ent :: "string list \<Rightarrow> string list \<Rightarrow> string list \<Rightarrow> real \<Rightarrow> ExtractedEntities" where
  "ent rs cs ts c =
     \<lparr>reqs = rs, components = cs, users_mentioned = [], topics = ts,
      confidence = c, extraction_time_ms = 0\<rparr>"

text \<open>
  A stand-in for the JSON codec in the concrete evaluations: a message is written as its id,
  and read back as the message \<open>mk_msg\<close> makes of that id.
\<close>

definition mk_msg :: "string \<Rightarrow> LiveContextMessage" where
  "mk_msg i =
     \<lparr>lm_message_id = i, lm_user_id = ''u'', lm_text = ''t'',
      lm_entities = \<lparr>ed_reqs = None, ed_components = None, ed_users_mentioned = None,
                     ed_topics = None, ed_confidence = None\<rparr>,
      lm_decision_id = None, lm_timestamp = ''ts'', lm_channel_id = ''c''\<rparr>"

definition enc0 :: "LiveContextMessage \<Rightarrow> string" where
  "enc0 m = lm_message_id m"

definition dec0 :: "string \<Rightarrow> LiveContextMessage option" where
  "dec0 raw = Some (mk_msg raw)"

definition buf0 :: RedisContextBuffer where
  "buf0 = \<lparr>redis_client = Some \<lparr>status = Up, keyspace = (\<lambda>k. None)\<rparr>\<rparr>"

text \<open>\<open>n\<close> adds at the clock readings \<open>k\<close>, \<open>k + 1\<close>, ... of messages with distinct ids.\<close>

fun ticks :: "nat \<Rightarrow> nat \<Rightarrow> (real \<times> LiveContextMessage) list" where
  "ticks k 0 = []"
| "ticks k (Suc n) = (real k, mk_msg (replicate k CHR ''m'')) # ticks (Suc k) n"


text \<open>
  Decisions for the concrete evaluations. Their texts are ASCII, so that the Unicode
  database is never consulted and any value serves for it.
\<close>

definition ascii_db :: unicode_db where
  "ascii_db = \<lparr>udb_alnum = (\<lambda>c. False), udb_lower = (\<lambda>s. s)\<rparr>"

definition mk_decision ::
  "int \<Rightarrow> int \<Rightarrow> string \<Rightarrow> string list \<Rightarrow> string list \<Rightarrow> decision_row" where
  "mk_decision i ts body comps rs =
     \<lparr>d_decision_id = i, d_thread_id = ''th'', d_timestamp = ts, d_author_user_id = ''alice'',
      d_decision_type = ''requirement_change'', d_decision_text = cps body,
      d_affected_components = comps, d_referenced_reqs = rs,
      d_user_name = ''Alice'', d_role = ''Engineer''\<rparr>"


definition example_decisions :: "decision_row list" where
  "example_decisions =
     [mk_decision 3 200000000000 ''increase again'' [''motor''] [''REQ-1''],
      mk_decision 2 3600000000 ''decrease 2.5Nm TO 2.0Nm'' [''motor''] [''REQ-1''],
      mk_decision 1 0 ''Increase 2.0Nm to 2.5Nm'' [''motor''] [''REQ-1'']]"

definition carol :: user_profile where
  "carol = \<lparr>u_user_id = ''carol'', u_user_name = ''Carol'', u_role = ''Engineer'',
            u_owned_components = [''motor'', ''pcb'', ''firmware'']\<rparr>"

definition three_components :: decision_row where
  "three_components =
     \<lparr>d_decision_id = 7, d_thread_id = ''th'', d_timestamp = 0, d_author_user_id = ''alice'',
      d_decision_type = ''design_decision'', d_decision_text = cps ''Rework the drive'',
      d_affected_components = [''motor'', ''pcb'', ''firmware''], d_referenced_reqs = [],
      d_user_name = ''Alice'', d_role = ''Engineer''\<rparr>"


text \<open>A small table of decisions for the concrete evaluations.\<close>

definition mk_row :: "int \<Rightarrow> int \<Rightarrow> string \<Rightarrow> decisions_row" where
  "mk_row i ts st =
     \<lparr>r_decision_id = i, r_decision_text = ''d'', r_author_name = ''Alice'',
      r_author_role = ''Engineer'', r_author_user_id = ''alice'',
      r_decision_type = ''design_decision'', r_affected_components = [''motor''],
      r_referenced_reqs = [], r_timestamp = ts, r_before_after = None,
      r_embedding = Some [1, 0], r_similarity_score = None, r_embedding_status = st\<rparr>"

definition db0 :: database where
  "db0 = \<lparr>decisions_table = [mk_row 1 10 ''embedded'', mk_row 2 20 ''pending'',
                              mk_row 3 30 ''embedded'', mk_row 4 5 ''embedded''],
          profiles_table = [(''alice'', [''motor''])]\<rparr>"











section \<open>The matcher\<close>

lemma ent_simps:
  "reqs (ent rs cs ts c) = rs" "components (ent rs cs ts c) = cs"
  "topics (ent rs cs ts c) = ts" "confidence (ent rs cs ts c) = c"
  "users_mentioned (ent rs cs ts c) = []"
  by (simp_all add: ent_def)

lemma finite_buffer_union: "finite (\<Union>e\<in>set es. set (f e))"
  by simp

text \<open>
  C3. Whenever the requirement IDs of the new message meet the union of the buffered
  requirement IDs, \<open>calculate_overlap_score\<close> answers \<open>high\<close> with score twice the size of
  the intersection, whatever the components and topics are.
\<close>

theorem req_match_is_high:
  assumes "set (reqs b) \<inter> (\<Union>e\<in>set buf. set (reqs e)) \<noteq> {}"
  shows "calculate_overlap_score b buf =
           (''high'', 2 * real (card (set (reqs b) \<inter> (\<Union>e\<in>set buf. set (reqs e)))))"
proof -
  from assms have ne: "buf \<noteq> []" by auto
  have "finite (set (reqs b) \<inter> (\<Union>e\<in>set buf. set (reqs e)))" by simp
  with assms have "0 < card (set (reqs b) \<inter> (\<Union>e\<in>set buf. set (reqs e)))"
    by (simp add: card_gt_0_iff)
  with ne show ?thesis
    by (simp add: calculate_overlap_score_def Let_def)
qed

theorem req_match_is_high_witness:
  "calculate_overlap_score (ent [''REQ-1'', ''REQ-2''] [] [''a'', ''b''] (3 / 5))
     [ent [''REQ-2''] [''motor''] [''a'', ''b''] (3 / 5), ent [''REQ-1'', ''REQ-9''] [] [] (3 / 5)]
   = (''high'', 4)"
proof -
  have c: "card {''REQ-1'', ''REQ-2''} = 2" by simp
  have i: "{''REQ-1'', ''REQ-2''} \<inter> {''REQ-2'', ''REQ-1'', ''REQ-9''} = {''REQ-1'', ''REQ-2''}"
    by auto
  show ?thesis
    using req_match_is_high [of "ent [''REQ-1'', ''REQ-2''] [] [''a'', ''b''] (3 / 5)"
        "[ent [''REQ-2''] [''motor''] [''a'', ''b''] (3 / 5), ent [''REQ-1'', ''REQ-9''] [] [] (3 / 5)]"]
    by (simp add: ent_simps i c)
qed

text \<open>
  C4. With no requirement ID, no component and no topic in the new message,
  \<open>should_inject_context\<close> answers \<open>(False, 'none', 0.0)\<close> for every buffer and every
  threshold: the guard returns before the overlap score is computed.
\<close>

theorem empty_entities_never_inject:
  assumes "reqs b = []" and "components b = []" and "topics b = []"
  shows "should_inject_context b buf threshold = (False, ''none'', 0)"
  using assms by (simp add: should_inject_context_def)

theorem empty_entities_never_inject_witness:
  "should_inject_context (ent [] [] [] (3 / 5)) [ent [''REQ-1''] [''motor''] [] (3 / 5)] ''low''
   = (False, ''none'', 0)"
  using empty_entities_never_inject [of "ent [] [] [] (3 / 5)"
      "[ent [''REQ-1''] [''motor''] [] (3 / 5)]" "''low''"]
  by (simp add: ent_simps)

text \<open>
  C10. A threshold string that is none of \<open>high\<close>, \<open>medium\<close>, \<open>low\<close> is looked up with
  default 2, the level of \<open>medium\<close>: the answer is the one for threshold \<open>medium\<close>.
\<close>

theorem unknown_threshold_is_medium:
  assumes "threshold \<notin> {''high'', ''medium'', ''low''}"
  shows "should_inject_context b buf threshold = should_inject_context b buf ''medium''"
proof -
  from assms have "dict_get threshold_levels threshold 2 = 2"
    by (simp add: dict_get_def threshold_levels_def)
  moreover have "dict_get threshold_levels ''medium'' 2 = 2"
    by (simp add: dict_get_def threshold_levels_def)
  ultimately show ?thesis
    by (simp add: should_inject_context_def)
qed

theorem unknown_threshold_is_medium_witness:
  "should_inject_context (ent [''REQ-1''] [] [] (3 / 5)) [ent [''REQ-1''] [] [] (3 / 5)] ''strict''
   = should_inject_context (ent [''REQ-1''] [] [] (3 / 5)) [ent [''REQ-1''] [] [] (3 / 5)] ''medium''"
  using unknown_threshold_is_medium [of "''strict''" "ent [''REQ-1''] [] [] (3 / 5)"
      "[ent [''REQ-1''] [] [] (3 / 5)]"]
  by simp

section \<open>Decision-worthiness\<close>

text \<open>
  C5. A message is decision-worthy exactly when it references a requirement ID, or names at
  least two components and its lower-cased text contains one of the decision keywords, or
  has confidence above 0.8 and names at least two topics.
\<close>

theorem decision_worthy_iff:
  "is_decision_worthy entities message_text \<longleftrightarrow>
     reqs entities \<noteq> []
     \<or> (length (components entities) \<ge> 2
          \<and> (\<exists>keyword \<in> set decision_keywords. str_in keyword (lower message_text)))
     \<or> (confidence entities > 4 / 5 \<and> length (topics entities) \<ge> 2)"
  by (auto simp add: is_decision_worthy_def Let_def list_ex_iff)

theorem decision_worthy_iff_witness:
  "is_decision_worthy (ent [] [''motor'', ''pcb''] [] (3 / 5)) ''We Decided it''"
  using decision_worthy_iff [of "ent [] [''motor'', ''pcb''] [] (3 / 5)" "''We Decided it''"]
  by (simp add: ent_simps decision_keywords_def lower_def lower_char_def)

section \<open>The live buffer\<close>

lemma zinsert_append: "\<forall>e\<in>set Z. snd e < snd x \<Longrightarrow> zinsert x Z = Z @ [x]"
  by (induction Z) auto

lemma zadd_append:
  assumes "m \<notin> fst ` set Z" and "\<forall>e\<in>set Z. snd e < s"
  shows "zadd Z m s = Z @ [(m, s)]"
proof -
  from assms(1) have "filter (\<lambda>e. fst e \<noteq> m) Z = Z"
    by (induction Z) auto
  with assms(2) show ?thesis
    by (simp add: zadd_def zinsert_append)
qed

lemma zrem_keep_last:
  "zremrangebyrank Z 0 (- int MAX_MESSAGES_PER_CHANNEL - 1) = drop (length Z - 30) Z"
  by (auto simp add: zremrangebyrank_def rank_range_def MAX_MESSAGES_PER_CHANNEL_def Let_def
      nat_diff_distrib Suc_diff_le intro!: arg_cong2[where f=drop])

lemma zrevrange_take:
  assumes "1 \<le> n"
  shows "zrevrange Z 0 (n - 1) = take (nat n) (rev Z)"
  using assms
  by (auto simp add: zrevrange_def rank_range_def Let_def nat_diff_distrib min_def)

lemma zrevrange_subset: "set (zrevrange Z a b) \<subseteq> set Z"
  by (auto simp add: zrevrange_def split: option.splits dest!: in_set_takeD in_set_dropD)

lemma add_message_fresh:
  assumes "redis_client self = Some srv" and "status srv = Up"
    and "keyspace srv (get_channel_key ch) = None"
  shows "fst (add_message enc self t ch m)
         \<and> chan_is (snd (add_message enc self t ch m)) ch [(enc m, t)] (t + BUFFER_TTL)"
  using assms
  by (simp add: add_message_def redis_zadd_def redis_zremrangebyrank_def redis_expire_def
      write_guard_def live_entry_def store_entry_def chan_is_def Let_def zrem_keep_last)

lemma add_message_live:
  assumes "chan_is self ch Z w" and "t \<le> w"
    and "enc m \<notin> fst ` set Z" and "\<forall>e\<in>set Z. snd e < t"
  shows "fst (add_message enc self t ch m)
         \<and> chan_is (snd (add_message enc self t ch m)) ch
              (drop (Suc (length Z) - 30) (Z @ [(enc m, t)])) (t + BUFFER_TTL)"
proof -
  from assms(1) obtain srv where s: "redis_client self = Some srv" "status srv = Up"
    "keyspace srv (get_channel_key ch) = Some \<lparr>zs = Z, expire_at = Some w\<rparr>"
    by (auto simp add: chan_is_def)
  have z: "zadd Z (enc m) t = Z @ [(enc m, t)]"
    using assms(3,4) by (rule zadd_append)
  have ne: "drop (Suc (length Z) - 30) (Z @ [(enc m, t)]) \<noteq> []"
    by simp
  show ?thesis
    using s assms(2) ne
    by (simp add: add_message_def redis_zadd_def redis_zremrangebyrank_def redis_expire_def
      write_guard_def live_entry_def store_entry_def chan_is_def Let_def zrem_keep_last z)
qed

lemma drop_append_last:
  "drop (Suc (length (drop (length E - 30) E)) - 30) (drop (length E - 30) E @ [x])
   = drop (length (E @ [x]) - 30) (E @ [x])"
proof (cases "length E \<ge> 30")
  case True
  then have "Suc (length E - 30) = length E - 29" by arith
  with True show ?thesis by simp
next
  case False
  then show ?thesis by simp
qed

lemma add_messages_inv:
  assumes "chan_is self ch (drop (length E - 30) E) (t0 + BUFFER_TTL)"
    and "\<forall>e\<in>set E. snd e \<le> t0"
    and "steady t0 adds"
    and "distinct (map fst E @ map (\<lambda>a. enc (snd a)) adds)"
  shows "chan_is (add_messages enc self ch adds) ch
           (drop (length (E @ map (entry enc) adds) - 30) (E @ map (entry enc) adds))
           (last (t0 # map fst adds) + BUFFER_TTL)"
  using assms
proof (induction adds arbitrary: self E t0)
  case Nil
  then show ?case by simp
next
  case (Cons a rest)
  obtain t m where a: "a = (t, m)" by (cases a)
  let ?Z = "drop (length E - 30) E"
  let ?self' = "snd (add_message enc self t ch m)"
  from Cons.prems(3) a have t: "t0 < t" "t \<le> t0 + BUFFER_TTL" "steady t rest"
    by simp_all
  have sub: "set ?Z \<subseteq> set E" by (rule set_drop_subset)
  from Cons.prems(4) a have "enc m \<notin> fst ` set E" by auto
  with sub have fresh: "enc m \<notin> fst ` set ?Z" by auto
  from Cons.prems(2) t(1) sub have older: "\<forall>e\<in>set ?Z. snd e < t" by fastforce
  from add_message_live [of self ch ?Z "t0 + BUFFER_TTL" t enc m] Cons.prems(1) t(2) fresh older
  have "chan_is ?self' ch (drop (Suc (length ?Z) - 30) (?Z @ [(enc m, t)])) (t + BUFFER_TTL)"
    by simp
  then have c: "chan_is ?self' ch
      (drop (length (E @ [(enc m, t)]) - 30) (E @ [(enc m, t)])) (t + BUFFER_TTL)"
    by (simp only: drop_append_last)
  from Cons.prems(2) t(1) have le: "\<forall>e\<in>set (E @ [(enc m, t)]). snd e \<le> t"
    by fastforce
  from Cons.prems(4) a have d: "distinct (map fst (E @ [(enc m, t)]) @ map (\<lambda>a. enc (snd a)) rest)"
    by auto
  from Cons.IH [OF c le t(3) d] a show ?case
    by (simp add: entry_def)
qed

lemma get_recent_context_live:
  assumes "chan_is self ch Z w" and "now \<le> w" and "1 \<le> n"
  shows "get_recent_context dec self now ch n age =
           List.map_filter
             (\<lambda>(raw, s). if now - real_of_int (age * 60) \<le> s then dec raw else None)
             (take (nat n) (rev Z))"
proof -
  from assms(1) obtain srv where s: "redis_client self = Some srv" "status srv = Up"
    "keyspace srv (get_channel_key ch) = Some \<lparr>zs = Z, expire_at = Some w\<rparr>"
    by (auto simp add: chan_is_def)
  show ?thesis
    using s assms(2) zrevrange_take [OF assms(3), of Z]
    by (simp add: get_recent_context_def redis_zrevrange_def read_guard_def live_entry_def
        Let_def map_filter_simps)
qed

lemma decode_entries:
  assumes "\<forall>a\<in>set xs. dec (enc (snd a)) = Some (snd a)"
  shows "List.map_filter (\<lambda>(raw, s). if c \<le> s then dec raw else None) (map (entry enc) xs)
         = map snd (filter (\<lambda>a. c \<le> fst a) xs)"
  using assms by (induction xs) (simp_all add: map_filter_simps entry_def)

lemma rev_drop_30: "rev (drop (length E - 30) E) = take 30 (rev E)"
  by (cases "30 \<le> length E") (simp_all add: rev_drop)

lemma steady_implies_last:
  "steady t0 adds \<Longrightarrow> last (t0 # map fst adds) = fst (last ((t0, m0) # adds))"
  by (induction adds arbitrary: t0 m0) auto

lemma ticks_steady: "real j < real k \<Longrightarrow> k \<le> j + 1 \<Longrightarrow> steady (real j) (ticks k n)"
  by (induction n arbitrary: j k) (simp_all add: BUFFER_TTL_def)

lemma ticks_ids: "a \<in> set (ticks k n) \<Longrightarrow> k \<le> length (enc0 (snd a))"
proof (induction n arbitrary: k)
  case 0
  then show ?case by simp
next
  case (Suc n)
  from Suc.prems consider "a = (real k, mk_msg (replicate k CHR ''m''))"
    | "a \<in> set (ticks (Suc k) n)" by auto
  then show ?case
  proof cases
    case 1
    then show ?thesis by (simp add: enc0_def mk_msg_def)
  next
    case 2
    from Suc.IH [OF 2] show ?thesis by simp
  qed
qed

lemma ticks_lower: "a \<in> set (ticks k n) \<Longrightarrow> real k \<le> fst a"
proof (induction n arbitrary: k)
  case 0
  then show ?case by simp
next
  case (Suc n)
  from Suc.prems consider "a = (real k, mk_msg (replicate k CHR ''m''))"
    | "a \<in> set (ticks (Suc k) n)" by auto
  then show ?case
  proof cases
    case 1
    then show ?thesis by simp
  next
    case 2
    from Suc.IH [OF 2] show ?thesis by simp
  qed
qed

lemma ticks_distinct: "distinct (map (\<lambda>a. enc0 (snd a)) (ticks k n))"
proof (induction n arbitrary: k)
  case 0
  then show ?case by simp
next
  case (Suc n)
  have "enc0 (mk_msg (replicate k CHR ''m'')) \<notin> (\<lambda>a. enc0 (snd a)) ` set (ticks (Suc k) n)"
  proof
    assume "enc0 (mk_msg (replicate k CHR ''m'')) \<in> (\<lambda>a. enc0 (snd a)) ` set (ticks (Suc k) n)"
    then obtain a where "a \<in> set (ticks (Suc k) n)"
      and "enc0 (snd a) = enc0 (mk_msg (replicate k CHR ''m''))" by auto
    with ticks_ids [of a "Suc k" n] show False
      by (simp add: enc0_def mk_msg_def)
  qed
  with Suc show ?case by simp
qed

lemma ticks_last: "fst (last (ticks k (Suc n))) = real (k + n)"
proof (induction n arbitrary: k)
  case 0
  show ?case by simp
next
  case (Suc n)
  have "ticks (Suc k) (Suc n) \<noteq> []" by simp
  then have "last (ticks k (Suc (Suc n))) = last (ticks (Suc k) (Suc n))"
    by (simp only: ticks.simps last.simps if_False)
  with Suc [of "Suc k"] show ?case by simp
qed

lemma ticks_length: "length (ticks k n) = n"
  by (induction n arbitrary: k) simp_all

lemma ticks_roundtrip: "a \<in> set (ticks k n) \<Longrightarrow> dec0 (enc0 (snd a)) = Some (snd a)"
  by (induction n arbitrary: k) (auto simp add: enc0_def dec0_def mk_msg_def)

text \<open>
  C1. On a channel that starts empty, after any non-empty run of adds (so also after more
  than \<open>MAX_MESSAGES_PER_CHANNEL\<close> of them) of messages with distinct encodings, made by
  a strictly increasing clock while the key is alive, \<open>get_recent_context\<close> returns the
  newest adds first: of the last 30 adds, the \<open>max_messages\<close> newest that are not older
  than \<open>max_age_minutes\<close>. It never returns more than 30 messages.
\<close>

theorem buffer_bound:
  assumes "redis_client self = Some srv" and "status srv = Up"
    and "keyspace srv (get_channel_key ch) = None"
    and "adds \<noteq> []"
    and "steady_clock adds"
    and "distinct (map (\<lambda>a. enc (snd a)) adds)"
    and "\<forall>a\<in>set adds. dec (enc (snd a)) = Some (snd a)"
    and "now \<le> fst (last adds) + BUFFER_TTL"
    and "1 \<le> max_messages"
  shows "get_recent_context dec (add_messages enc self ch adds) now ch max_messages max_age
         = map snd (filter (\<lambda>a. now - real_of_int (max_age * 60) \<le> fst a)
                      (take (nat max_messages) (take MAX_MESSAGES_PER_CHANNEL (rev adds))))
       \<and> length (get_recent_context dec (add_messages enc self ch adds) now ch
                   max_messages max_age) \<le> MAX_MESSAGES_PER_CHANNEL"
proof -
  from assms(4) obtain a rest where adds: "adds = a # rest" by (cases adds) auto
  obtain t m where a: "a = (t, m)" by (cases a)
  let ?self1 = "snd (add_message enc self t ch m)"
  let ?E = "[(enc m, t)] @ map (entry enc) rest"
  have c1: "chan_is ?self1 ch (drop (length [(enc m, t)] - 30) [(enc m, t)]) (t + BUFFER_TTL)"
    using add_message_fresh [OF assms(1,2,3), of enc t m] by simp
  from assms(5) adds a have st: "steady t rest"
    by (simp add: steady_clock_def)
  from assms(6) adds a have d: "distinct (map fst [(enc m, t)] @ map (\<lambda>a. enc (snd a)) rest)"
    by simp
  have "chan_is (add_messages enc ?self1 ch rest) ch (drop (length ?E - 30) ?E)
          (last (t # map fst rest) + BUFFER_TTL)"
    by (rule add_messages_inv [OF c1 _ st d]) simp
  moreover have "last (t # map fst rest) = fst (last adds)"
    using steady_implies_last [OF st, of m] adds a by simp
  moreover have "?E = map (entry enc) adds"
    using adds a by (simp add: entry_def)
  ultimately have c: "chan_is (add_messages enc self ch adds) ch
      (drop (length (map (entry enc) adds) - 30) (map (entry enc) adds))
      (fst (last adds) + BUFFER_TTL)"
    using adds a by simp
  have sub: "set (take (nat max_messages) (take 30 (rev adds))) \<subseteq> set adds"
    using set_take_subset [of "nat max_messages" "take 30 (rev adds)"]
      set_take_subset [of 30 "rev adds"] by auto
  have r: "take (nat max_messages)
             (rev (drop (length (map (entry enc) adds) - 30) (map (entry enc) adds)))
           = map (entry enc) (take (nat max_messages) (take 30 (rev adds)))"
    unfolding rev_drop_30 by (simp add: rev_map take_map)
  have "get_recent_context dec (add_messages enc self ch adds) now ch max_messages max_age
      = List.map_filter
             (\<lambda>(raw, s). if now - real_of_int (max_age * 60) \<le> s then dec raw else None)
             (map (entry enc) (take (nat max_messages) (take 30 (rev adds))))"
    using get_recent_context_live [OF c assms(8,9), of dec max_age] unfolding r .
  also have "\<dots> = map snd (filter (\<lambda>a. now - real_of_int (max_age * 60) \<le> fst a)
                      (take (nat max_messages) (take 30 (rev adds))))"
    by (rule decode_entries) (use sub assms(7) in blast)
  finally have eq: "get_recent_context dec (add_messages enc self ch adds) now ch
        max_messages max_age
      = map snd (filter (\<lambda>a. now - real_of_int (max_age * 60) \<le> fst a)
                      (take (nat max_messages) (take 30 (rev adds))))" .
  have "length (filter (\<lambda>a. now - real_of_int (max_age * 60) \<le> fst a)
                      (take (nat max_messages) (take 30 (rev adds))))
        \<le> length (take (nat max_messages) (take 30 (rev adds)))"
    by (rule length_filter_le)
  then have len: "length (map snd (filter (\<lambda>a. now - real_of_int (max_age * 60) \<le> fst a)
                      (take (nat max_messages) (take 30 (rev adds))))) \<le> 30"
    by simp
  from eq len show ?thesis
    by (simp only: MAX_MESSAGES_PER_CHANNEL_def)
qed

theorem buffer_bound_witness:
  "length (ticks 1 31) > MAX_MESSAGES_PER_CHANNEL
   \<and> get_recent_context dec0 (add_messages enc0 buf0 ''c'' (ticks 1 31)) 31 ''c'' 30 120
     = map snd (take 30 (rev (ticks 1 31)))"
proof -
  have s: "steady_clock (ticks 1 31)"
    using ticks_steady [of 1 2 30] by (simp add: steady_clock_def numeral_eq_Suc)
  have l: "fst (last (ticks 1 31)) = 31"
    using ticks_last [of 1 30] by (simp add: numeral_eq_Suc)
  have ne: "ticks 1 31 \<noteq> []"
    using ticks_length [of 1 31] by auto
  have f: "filter (\<lambda>a. - 7169 \<le> fst a) (take 30 (rev (ticks (Suc 0) 31)))
           = take 30 (rev (ticks (Suc 0) 31))"
  proof (rule filter_True, rule ballI)
    fix a assume "a \<in> set (take 30 (rev (ticks (Suc 0) 31)))"
    then have "a \<in> set (ticks (Suc 0) 31)" by (auto dest: in_set_takeD)
    then have "0 \<le> fst a" using ticks_lower [of a "Suc 0" 31] by simp
    then show "- 7169 \<le> fst a" by simp
  qed
  show ?thesis
    using buffer_bound [of buf0 "\<lparr>status = Up, keyspace = (\<lambda>k. None)\<rparr>" "''c''" "ticks 1 31"
        enc0 dec0 31 30 120] s l ne ticks_distinct [of 1 31] ticks_roundtrip [of _ 1 31]
    by (simp add: buf0_def BUFFER_TTL_def MAX_MESSAGES_PER_CHANNEL_def ticks_length f)
qed

lemma returned_is_stored:
  assumes "m \<in> set (get_recent_context dec self now ch n age)"
  shows "\<exists>raw s. (raw, s) \<in> set (channel_entries self ch) \<and> dec raw = Some m
                \<and> now - s \<le> real_of_int (age * 60)"
proof -
  from assms obtain srv where srv: "redis_client self = Some srv"
    by (cases "redis_client self") (auto simp add: get_recent_context_def)
  from assms srv obtain e where e: "keyspace srv (get_channel_key ch) = Some e"
    by (cases "keyspace srv (get_channel_key ch)")
      (auto simp add: get_recent_context_def redis_zrevrange_def live_entry_def
        split: option.splits if_splits)
  from assms srv e have "m \<in> set (List.map_filter
      (\<lambda>(raw_msg, timestamp_score).
          if timestamp_score \<ge> now - real_of_int (age * 60) then dec raw_msg else None)
      (zrevrange (zs e) 0 (n - 1)))"
    by (auto simp add: get_recent_context_def redis_zrevrange_def live_entry_def Let_def
        split: option.splits if_splits)
  then obtain raw s where "(raw, s) \<in> set (zrevrange (zs e) 0 (n - 1))"
    and "now - real_of_int (age * 60) \<le> s" and "dec raw = Some m"
    by (auto simp add: List.map_filter_def split: if_splits)
  then have "(raw, s) \<in> set (zs e)" and "now - s \<le> real_of_int (age * 60)"
    using zrevrange_subset [of "zs e" 0 "n - 1"] by auto
  moreover have "channel_entries self ch = zs e"
    using srv e by (simp add: channel_entries_def)
  ultimately show ?thesis
    using \<open>dec raw = Some m\<close> by metis
qed

lemma redis_expire_due:
  assumes "redis_expire srv t key seconds = Inr srv'" and "t + seconds < now"
  shows "live_entry srv' now key = None"
  using assms
  by (auto simp add: redis_expire_def live_entry_def store_entry_def
      split: option.splits if_splits)

lemma add_message_sets_expiry:
  assumes "add_message enc self t ch msg = (True, self')"
  shows "\<exists>srv2 srv3. redis_expire srv2 t (get_channel_key ch) BUFFER_TTL = Inr srv3
                     \<and> redis_client self' = Some srv3"
  using assms
  by (auto simp add: add_message_def Let_def split: option.splits sum.splits)

lemma get_recent_context_gone:
  assumes "redis_client self = Some srv" and "live_entry srv now (get_channel_key ch) = None"
  shows "get_recent_context dec self now ch n age = []"
  using assms
  by (simp add: get_recent_context_def redis_zrevrange_def split: option.splits)

lemma expired_after_ttl:
  assumes "add_message enc self t ch msg = (True, self')" and "t + BUFFER_TTL < now"
  shows "get_recent_context dec self' now ch n age = []"
proof -
  from add_message_sets_expiry [OF assms(1)] obtain srv2 srv3
    where e: "redis_expire srv2 t (get_channel_key ch) BUFFER_TTL = Inr srv3"
      and c: "redis_client self' = Some srv3" by blast
  from redis_expire_due [OF e assms(2)] c show ?thesis
    by (rule get_recent_context_gone [rotated])
qed

text \<open>
  C2 as stated fails: the TTL belongs to the channel's key and every add renews it. A message
  added at time 0 is returned at time 8000, 800 seconds past \<open>BUFFER_TTL\<close>, because an
  add at time 7000 kept the key alive and the caller asked for 200 minutes.
\<close>

theorem ttl_counterexample:
  "get_recent_context dec0
     (add_messages enc0 buf0 ''c'' [(0, mk_msg ''m1''), (7000, mk_msg ''m2'')])
     8000 ''c'' 30 200 = [mk_msg ''m2'', mk_msg ''m1'']
   \<and> 8000 - 0 > BUFFER_TTL"
  by (simp add: get_recent_context_def add_message_def redis_zadd_def redis_zremrangebyrank_def
      redis_expire_def redis_zrevrange_def write_guard_def read_guard_def live_entry_def
      store_entry_def Let_def zremrangebyrank_def zrevrange_def rank_range_def zadd_def
      buf0_def enc0_def dec0_def mk_msg_def BUFFER_TTL_def MAX_MESSAGES_PER_CHANNEL_def
      get_channel_key_def map_filter_simps)

text \<open>
  C2, amended. After a successful add at time \<open>t\<close>, every message that
  \<open>get_recent_context\<close> returns is a stored entry whose score is at most
  \<open>max_age_minutes\<close> minutes in the past, and nothing is returned once the clock has
  passed \<open>t + BUFFER_TTL\<close> with no further add.
\<close>

theorem ttl_per_channel:
  assumes "add_message enc self t ch msg = (True, self')"
  shows "(\<forall>m\<in>set (get_recent_context dec self' now ch n age).
            \<exists>raw s. (raw, s) \<in> set (channel_entries self' ch) \<and> dec raw = Some m
                    \<and> now - s \<le> real_of_int (age * 60))
         \<and> (t + BUFFER_TTL < now \<longrightarrow> get_recent_context dec self' now ch n age = [])"
  using returned_is_stored [of _ dec self' now ch n age] expired_after_ttl [OF assms]
  by blast

theorem ttl_per_channel_witness:
  "fst (add_message enc0 buf0 0 ''c'' (mk_msg ''m1''))
   \<and> get_recent_context dec0 (snd (add_message enc0 buf0 0 ''c'' (mk_msg ''m1'')))
        7201 ''c'' 30 200 = []"
proof -
  have a: "add_message enc0 buf0 0 ''c'' (mk_msg ''m1'')
           = (True, snd (add_message enc0 buf0 0 ''c'' (mk_msg ''m1'')))"
    using add_message_fresh [of buf0 "\<lparr>status = Up, keyspace = (\<lambda>k. None)\<rparr>" "''c''" enc0 0
        "mk_msg ''m1''"]
    by (simp add: buf0_def prod_eq_iff)
  from a have f: "fst (add_message enc0 buf0 0 ''c'' (mk_msg ''m1''))"
    by (simp add: prod_eq_iff)
  from ttl_per_channel [OF a, of dec0 7201 30 200]
  have "get_recent_context dec0 (snd (add_message enc0 buf0 0 ''c'' (mk_msg ''m1'')))
          7201 ''c'' 30 200 = []"
    by (simp add: BUFFER_TTL_def)
  with f show ?thesis by simp
qed

section \<open>Conflicts\<close>

lemma timedelta_days_under_a_day: "timedelta_days delta < 1 \<longleftrightarrow> delta < DAY_US"
proof -
  have "0 < DAY_US" by (simp add: DAY_US_def)
  from pos_imp_zdiv_pos_iff [OF this, of delta]
  show ?thesis by (auto simp add: timedelta_days_def)
qed

subsection \<open>The grouping loop\<close>

lemma dict_append_keys:
  "map fst (dict_append k v D)
   = (if k \<in> set (map fst D) then map fst D else map fst D @ [k])"
  by (induction D) (auto simp add: image_iff, force+)

lemma dict_append_distinct: "distinct (map fst D) \<Longrightarrow> distinct (map fst (dict_append k v D))"
  by (simp add: dict_append_keys)

lemma dict_append_map_of:
  "map_of (dict_append k v D) k'
   = (if k' = k then Some ((case map_of D k of None \<Rightarrow> [] | Some g \<Rightarrow> g) @ [v])
      else map_of D k')"
  by (induction D) auto

text \<open>The dictionary \<open>D\<close> holds exactly the non-empty lists of \<open>g\<close>.\<close>

lemma dict_append_holds:
  assumes "distinct (map fst D)"
    and "\<forall>k. map_of D k = (if g k = [] then None else Some (g k))"
  shows "distinct (map fst (dict_append k v D))
     \<and> (\<forall>k'. map_of (dict_append k v D) k'
              = (if (g(k := g k @ [v])) k' = [] then None else Some ((g(k := g k @ [v])) k')))"
  using assms by (simp add: dict_append_distinct dict_append_map_of)

lemma inner_loop_holds:
  assumes "distinct (map fst D)"
    and "\<forall>k. map_of D k = (if g k = [] then None else Some (g k))"
  shows "distinct (map fst (foldl (\<lambda>d' k. dict_append k x d') D ks))
     \<and> (\<forall>k. map_of (foldl (\<lambda>d' k. dict_append k x d') D ks) k
             = (if g k @ map (\<lambda>_. x) (filter (\<lambda>k'. k' = k) ks) = [] then None
                else Some (g k @ map (\<lambda>_. x) (filter (\<lambda>k'. k' = k) ks))))"
  using assms
proof (induction ks arbitrary: D g)
  case Nil
  then show ?case by simp
next
  case (Cons k0 ks)
  from dict_append_holds [OF Cons.prems, of k0 x]
  have d: "distinct (map fst (dict_append k0 x D))"
    and m: "\<forall>k'. map_of (dict_append k0 x D) k'
              = (if (g(k0 := g k0 @ [x])) k' = [] then None
                 else Some ((g(k0 := g k0 @ [x])) k'))"
    by blast+
  from Cons.IH [OF d m] show ?case by simp
qed

lemma outer_loop_holds:
  assumes "distinct (map fst D)"
    and "\<forall>k. map_of D k = (if g k = [] then None else Some (g k))"
  shows "distinct (map fst (foldl (\<lambda>d x. foldl (\<lambda>d' k. dict_append k x d') d (keys x)) D xs))
     \<and> (\<forall>k. map_of (foldl (\<lambda>d x. foldl (\<lambda>d' k. dict_append k x d') d (keys x)) D xs) k
             = (if g k @ members keys k xs = [] then None
                else Some (g k @ members keys k xs)))"
  using assms
proof (induction xs arbitrary: D g)
  case Nil
  then show ?case by (simp add: members_def)
next
  case (Cons x xs)
  from inner_loop_holds [OF Cons.prems, of x "keys x"]
  have d: "distinct (map fst (foldl (\<lambda>d' k. dict_append k x d') D (keys x)))"
    and m: "\<forall>k. map_of (foldl (\<lambda>d' k. dict_append k x d') D (keys x)) k
             = (if g k @ map (\<lambda>_. x) (filter (\<lambda>k'. k' = k) (keys x)) = [] then None
                else Some (g k @ map (\<lambda>_. x) (filter (\<lambda>k'. k' = k) (keys x))))"
    by blast+
  from Cons.IH [OF d m] show ?case by (simp add: members_def)
qed

lemma group_by_holds:
  "distinct (map fst (group_by keys xs))
   \<and> (\<forall>k. map_of (group_by keys xs) k
           = (if members keys k xs = [] then None else Some (members keys k xs)))"
  using outer_loop_holds [of "[]" "\<lambda>k. []" keys xs] by (simp add: group_by_def)

lemma group_by_members:
  assumes "(k, g) \<in> set (group_by keys xs)"
  shows "g = members keys k xs"
proof -
  from group_by_holds [of keys xs] have d: "distinct (map fst (group_by keys xs))" by simp
  from assms have "map_of (group_by keys xs) k = Some g"
    by (simp only: map_of_eq_Some_iff [OF d])
  with group_by_holds [of keys xs] show ?thesis by (simp split: if_splits)
qed

lemma group_by_has:
  assumes "members keys k xs \<noteq> []"
  shows "(k, members keys k xs) \<in> set (group_by keys xs)"
proof -
  from group_by_holds [of keys xs] assms
  have "map_of (group_by keys xs) k = Some (members keys k xs)" by simp
  then show ?thesis by (rule map_of_SomeD)
qed

lemma members_set: "x \<in> set (members keys k xs) \<longleftrightarrow> x \<in> set xs \<and> k \<in> set (keys x)"
  by (auto simp add: members_def)

lemma members_append: "members keys k (xs @ ys) = members keys k xs @ members keys k ys"
  by (simp add: members_def)

subsection \<open>The sort\<close>

lemma insert_conflict_set: "set (insert_conflict x ys) = insert x (set ys)"
  by (induction ys) auto

lemma sort_conflicts_set: "set (sort_conflicts cs) = set cs"
  by (induction cs) (simp_all add: sort_conflicts_def insert_conflict_set)

subsection \<open>The conflicts of one group\<close>

lemma neighbours_subset:
  assumes "(x, y) \<in> set (neighbours xs)"
  shows "x \<in> set xs \<and> y \<in> set xs"
proof (cases xs)
  case Nil
  with assms show ?thesis by (simp add: neighbours_def)
next
  case (Cons a as)
  with assms have "x \<in> set xs" and "y \<in> set as"
    by (auto simp add: neighbours_def dest: set_zip_leftD set_zip_rightD)
  with Cons show ?thesis by simp
qed

lemma neighbours_sorted:
  assumes "(x, y) \<in> set (neighbours xs)" and "sorted (map f xs)"
  shows "f x \<le> f y"
proof -
  from assms(1) obtain n where n: "xs ! n = x" "tl xs ! n = y" "n < length (tl xs)"
    by (auto simp add: neighbours_def in_set_zip)
  then have "xs ! Suc n = y" and "Suc n < length xs" by (simp_all add: nth_tl)
  with sorted_nth_mono [OF assms(2), of n "Suc n"] n(1) show ?thesis by simp
qed

lemma requirement_conflict_shape:
  assumes "c \<in> set (requirement_conflict db requirement previous current pattern)"
  shows "c_type c = ''requirement_conflict'' \<and> c_requirement c = Some requirement
         \<and> contradicts db pattern previous current
         \<and> c_decisions c = [format_decision_summary previous, format_decision_summary current]
         \<and> c_severity c = (if d_timestamp current - d_timestamp previous < DAY_US
                            then ''critical'' else ''warning'')"
  using assms
  by (auto simp add: requirement_conflict_def Let_def timedelta_days_under_a_day
      split: if_splits)

lemma analyze_requirement_conflicts_shape:
  assumes "c \<in> set (analyze_requirement_conflicts db requirement decisions)"
  shows "\<exists>previous current pattern. previous \<in> set decisions \<and> current \<in> set decisions
           \<and> pattern \<in> set contradiction_patterns
           \<and> contradicts db pattern previous current
           \<and> d_timestamp previous \<le> d_timestamp current
           \<and> c_type c = ''requirement_conflict'' \<and> c_requirement c = Some requirement
           \<and> c_decisions c = [format_decision_summary previous, format_decision_summary current]
           \<and> c_severity c = (if d_timestamp current - d_timestamp previous < DAY_US
                              then ''critical'' else ''warning'')"
proof -
  from assms obtain previous current pattern
    where n: "(previous, current) \<in> set (neighbours (sort_key d_timestamp decisions))"
      and p: "pattern \<in> set contradiction_patterns"
      and c: "c \<in> set (requirement_conflict db requirement previous current pattern)"
    by (auto simp add: analyze_requirement_conflicts_def Let_def split: if_splits)
  from neighbours_subset [OF n] have "previous \<in> set decisions" "current \<in> set decisions"
    by simp_all
  moreover from neighbours_sorted [OF n, of d_timestamp]
  have "d_timestamp previous \<le> d_timestamp current" by simp
  ultimately show ?thesis using requirement_conflict_shape [OF c] p by blast
qed

lemma extract_changes_append:
  "extract_changes db (xs @ ys) = extract_changes db xs @ extract_changes db ys"
  by (simp add: extract_changes_def)

lemma extract_changes_of:
  "change \<in> set (extract_changes db decisions) \<longleftrightarrow>
     (\<exists>d\<in>set decisions. change \<in> set (extract_changes db [d]))"
  by (auto simp add: extract_changes_def)

lemma extract_changes_decision:
  "change \<in> set (extract_changes db [d]) \<Longrightarrow> ch_decision change = d"
  by (auto simp add: extract_changes_def)

lemma later_pairs_set: "(x, y) \<in> set (later_pairs xs) \<Longrightarrow> x \<in> set xs \<and> y \<in> set xs"
  by (induction xs) auto

lemma later_pairs_append:
  "set (later_pairs (xs @ ys)) = set (later_pairs xs) \<union> set xs \<times> set ys \<union> set (later_pairs ys)"
  by (induction xs) auto

lemma before_after_shape:
  assumes "c \<in> set (detect_before_after_conflicts db decisions)"
  shows "c_type c = ''circular_change'' \<and> c_severity c = ''critical''
     \<and> (\<exists>change1\<in>set (extract_changes db decisions).
          \<exists>change2\<in>set (extract_changes db decisions).
            ch_before change1 = ch_after change2 \<and> ch_after change1 = ch_before change2
            \<and> c_decisions c = [format_decision_summary (ch_decision change1),
                               format_decision_summary (ch_decision change2)])"
proof -
  from assms obtain change1 change2
    where p: "(change1, change2) \<in> set (later_pairs (extract_changes db decisions))"
      and c: "c \<in> set (circular_conflict change1 change2)"
    by (auto simp add: detect_before_after_conflicts_def Let_def split: if_splits)
  from c have "c_type c = ''circular_change'' \<and> c_severity c = ''critical''
      \<and> ch_before change1 = ch_after change2 \<and> ch_after change1 = ch_before change2
      \<and> c_decisions c = [format_decision_summary (ch_decision change1),
                         format_decision_summary (ch_decision change2)]"
    by (auto simp add: circular_conflict_def split: if_splits)
  with later_pairs_set [OF p] show ?thesis by blast
qed

lemma before_after_flagged:
  assumes "(change1, change2) \<in> set (later_pairs (extract_changes db decisions))"
    and "ch_before change1 = ch_after change2" and "ch_after change1 = ch_before change2"
  shows "\<exists>c\<in>set (detect_before_after_conflicts db decisions).
           c_type c = ''circular_change'' \<and> c_severity c = ''critical''
           \<and> c_decisions c = [format_decision_summary (ch_decision change1),
                              format_decision_summary (ch_decision change2)]"
proof -
  from later_pairs_set [OF assms(1)] assms(1)
  have len: "length (extract_changes db decisions) > 1"
    by (cases "extract_changes db decisions" rule: later_pairs.cases) auto
  with assms(1)
  have "set (circular_conflict change1 change2)
        \<subseteq> set (detect_before_after_conflicts db decisions)"
    by (force simp add: detect_before_after_conflicts_def Let_def)
  moreover from assms(2,3) have "\<exists>c\<in>set (circular_conflict change1 change2).
           c_type c = ''circular_change'' \<and> c_severity c = ''critical''
           \<and> c_decisions c = [format_decision_summary (ch_decision change1),
                              format_decision_summary (ch_decision change2)]"
    by (simp add: circular_conflict_def)
  ultimately show ?thesis by blast
qed

lemma component_conflict_types:
  assumes "c \<in> set (analyze_component_conflicts db component decisions)"
  shows "c_type c \<noteq> ''requirement_conflict''"
  using assms before_after_shape [of _ db decisions]
  by (auto simp add: analyze_component_conflicts_def Let_def split: if_splits)

lemma component_circular_shape:
  assumes "c \<in> set (analyze_component_conflicts db component decisions)"
    and "c_type c = ''circular_change''"
  shows "c_severity c = ''critical'' \<and> c_component c = Some component
     \<and> (\<exists>change1\<in>set (extract_changes db decisions).
          \<exists>change2\<in>set (extract_changes db decisions).
            ch_before change1 = ch_after change2 \<and> ch_after change1 = ch_before change2
            \<and> c_decisions c = [format_decision_summary (ch_decision change1),
                               format_decision_summary (ch_decision change2)])"
proof -
  from assms obtain c0 where c0: "c0 \<in> set (detect_before_after_conflicts db decisions)"
    and c: "c = c0\<lparr>c_component := Some component\<rparr>"
    by (auto simp add: analyze_component_conflicts_def Let_def split: if_splits)
  from before_after_shape [OF c0] c show ?thesis by simp
qed

lemma component_circular_flagged:
  assumes "c0 \<in> set (detect_before_after_conflicts db decisions)"
  shows "c0\<lparr>c_component := Some component\<rparr>
         \<in> set (analyze_component_conflicts db component decisions)"
  using assms by (simp add: analyze_component_conflicts_def Let_def)

subsection \<open>The conflicts of \<open>_detect_conflicts\<close>\<close>

lemma detect_conflicts_set:
  "c \<in> set (detect_conflicts db decisions) \<longleftrightarrow>
     (\<exists>component g. (component, g) \<in> set (group_by d_affected_components decisions)
         \<and> length g > 1 \<and> c \<in> set (analyze_component_conflicts db component g))
     \<or> (\<exists>req g. (req, g) \<in> set (group_by d_referenced_reqs decisions)
         \<and> length g > 1 \<and> c \<in> set (analyze_requirement_conflicts db req g))"
  by (simp add: detect_conflicts_def Let_def sort_conflicts_set) (auto split: if_splits)

lemma requirement_conflicts_of_detect:
  assumes "c \<in> set (detect_conflicts db decisions)" and "c_type c = ''requirement_conflict''"
  shows "\<exists>requirement previous current pattern.
           previous \<in> set decisions \<and> current \<in> set decisions
           \<and> requirement \<in> set (d_referenced_reqs previous)
           \<and> requirement \<in> set (d_referenced_reqs current)
           \<and> pattern \<in> set contradiction_patterns
           \<and> contradicts db pattern previous current
           \<and> d_timestamp previous \<le> d_timestamp current
           \<and> c_requirement c = Some requirement
           \<and> c_decisions c = [format_decision_summary previous, format_decision_summary current]
           \<and> c_severity c = (if d_timestamp current - d_timestamp previous < DAY_US
                              then ''critical'' else ''warning'')"
proof -
  from assms component_conflict_types [of c db] obtain req g
    where g: "(req, g) \<in> set (group_by d_referenced_reqs decisions)"
      and c: "c \<in> set (analyze_requirement_conflicts db req g)"
    by (auto simp add: detect_conflicts_set)
  from analyze_requirement_conflicts_shape [OF c] obtain previous current pattern
    where s: "previous \<in> set g" "current \<in> set g"
      "pattern \<in> set contradiction_patterns" "contradicts db pattern previous current"
      "d_timestamp previous \<le> d_timestamp current" "c_requirement c = Some req"
      "c_decisions c = [format_decision_summary previous, format_decision_summary current]"
      "c_severity c = (if d_timestamp current - d_timestamp previous < DAY_US
                       then ''critical'' else ''warning'')"
    by blast
  from s(1,2) group_by_members [OF g]
  have "previous \<in> set decisions \<and> req \<in> set (d_referenced_reqs previous)"
    and "current \<in> set decisions \<and> req \<in> set (d_referenced_reqs current)"
    by (simp_all add: members_set)
  with s show ?thesis by blast
qed

lemma circular_changes_of_detect:
  assumes "c \<in> set (detect_conflicts db decisions)" and "c_type c = ''circular_change''"
  shows "c_severity c = ''critical''
     \<and> (\<exists>component d1 d2. d1 \<in> set decisions \<and> d2 \<in> set decisions
          \<and> component \<in> set (d_affected_components d1)
          \<and> component \<in> set (d_affected_components d2)
          \<and> c_component c = Some component
          \<and> c_decisions c = [format_decision_summary d1, format_decision_summary d2]
          \<and> (\<exists>change1\<in>set (extract_changes db [d1]).
                \<exists>change2\<in>set (extract_changes db [d2]).
                  ch_before change1 = ch_after change2 \<and> ch_after change1 = ch_before change2))"
proof -
  have "c \<notin> set (analyze_requirement_conflicts db req g)" for req g
    using analyze_requirement_conflicts_shape [of c db req g] assms(2) by auto
  with assms(1) obtain component g
    where g: "(component, g) \<in> set (group_by d_affected_components decisions)"
      and c: "c \<in> set (analyze_component_conflicts db component g)"
    by (auto simp add: detect_conflicts_set)
  from component_circular_shape [OF c assms(2)] obtain change1 change2
    where s: "c_severity c = ''critical''" "c_component c = Some component"
      "change1 \<in> set (extract_changes db g)" "change2 \<in> set (extract_changes db g)"
      "ch_before change1 = ch_after change2" "ch_after change1 = ch_before change2"
      "c_decisions c = [format_decision_summary (ch_decision change1),
                        format_decision_summary (ch_decision change2)]"
    by blast
  from s(3) obtain d1 where d1: "d1 \<in> set g" "change1 \<in> set (extract_changes db [d1])"
    by (auto simp add: extract_changes_of [of change1 db g])
  from s(4) obtain d2 where d2: "d2 \<in> set g" "change2 \<in> set (extract_changes db [d2])"
    by (auto simp add: extract_changes_of [of change2 db g])
  from d1(1) d2(1) group_by_members [OF g]
  have m: "d1 \<in> set decisions" "component \<in> set (d_affected_components d1)"
    "d2 \<in> set decisions" "component \<in> set (d_affected_components d2)"
    by (simp_all add: members_set)
  from s(7) extract_changes_decision [OF d1(2)] extract_changes_decision [OF d2(2)]
  have "c_decisions c = [format_decision_summary d1, format_decision_summary d2]" by simp
  with s(1,2,5,6) d1(2) d2(2) m show ?thesis by blast
qed

lemma circular_change_is_flagged:
  assumes ij: "i < j" "j < length decisions"
    and ci: "component \<in> set (d_affected_components (decisions ! i))"
    and cj: "component \<in> set (d_affected_components (decisions ! j))"
    and c1: "change1 \<in> set (extract_changes db [decisions ! i])"
    and c2: "change2 \<in> set (extract_changes db [decisions ! j])"
    and eq: "ch_before change1 = ch_after change2" "ch_after change1 = ch_before change2"
  shows "\<exists>c\<in>set (detect_conflicts db decisions).
           c_type c = ''circular_change'' \<and> c_severity c = ''critical''
           \<and> c_component c = Some component
           \<and> c_decisions c = [format_decision_summary (decisions ! i),
                              format_decision_summary (decisions ! j)]"
proof -
  let ?m = "members d_affected_components component"
  let ?A = "take i decisions" and ?R = "drop (Suc i) decisions"
  let ?di = "decisions ! i" and ?dj = "decisions ! j"
  from ij have split: "decisions = ?A @ [?di] @ ?R"
    by (simp add: id_take_nth_drop [symmetric])
  from ij have "?dj = ?R ! (j - Suc i)" and "j - Suc i < length ?R" by simp_all
  then have "?dj \<in> set ?R" by (metis nth_mem)
  with cj have mj: "?dj \<in> set (?m ?R)" by (simp add: members_set)
  from ci have mi: "?di \<in> set (?m [?di])" by (simp add: members_set)
  have g: "?m decisions = ?m ?A @ ?m [?di] @ ?m ?R"
    by (subst split) (simp only: members_append)
  from mi mj have len: "length (?m decisions) > 1"
    by (simp only: g length_append) (cases "?m [?di]"; cases "?m ?R"; simp)
  from mi c1 have e1: "change1 \<in> set (extract_changes db (?m [?di]))"
    by (auto simp add: extract_changes_of [of change1 db "?m [?di]"])
  from mj c2 have e2: "change2 \<in> set (extract_changes db (?m ?R))"
    by (auto simp add: extract_changes_of [of change2 db "?m ?R"])
  from e1 e2 have "(change1, change2) \<in> set (later_pairs (extract_changes db (?m decisions)))"
    by (simp only: g extract_changes_append later_pairs_append) simp
  from before_after_flagged [OF this eq] obtain c0
    where c0: "c0 \<in> set (detect_before_after_conflicts db (?m decisions))"
      "c_type c0 = ''circular_change''" "c_severity c0 = ''critical''"
      "c_decisions c0 = [format_decision_summary (ch_decision change1),
                         format_decision_summary (ch_decision change2)]"
    by blast
  from len have "?m decisions \<noteq> []" by auto
  from group_by_has [OF this] len component_circular_flagged [OF c0(1), of component]
  have "c0\<lparr>c_component := Some component\<rparr> \<in> set (detect_conflicts db decisions)"
    by (auto simp add: detect_conflicts_set)
  moreover from c0 extract_changes_decision [OF c1] extract_changes_decision [OF c2]
  have "c_type (c0\<lparr>c_component := Some component\<rparr>) = ''circular_change''
      \<and> c_severity (c0\<lparr>c_component := Some component\<rparr>) = ''critical''
      \<and> c_component (c0\<lparr>c_component := Some component\<rparr>) = Some component
      \<and> c_decisions (c0\<lparr>c_component := Some component\<rparr>)
          = [format_decision_summary ?di, format_decision_summary ?dj]"
    by simp
  ultimately show ?thesis by blast
qed

subsection \<open>Concrete evaluations\<close>

lemmas regex_eval = findall_changes.simps match_at_def token_len_def rest_match_def
  separator_len_def is_word_def ascii_alnum_def is_space_def cps_def Let_def

lemmas conflict_eval = detect_conflicts_def group_by_def analyze_component_conflicts_def
  analyze_requirement_conflicts_def requirement_conflict_def contradicts_def
  contradiction_patterns_def neighbours_def detect_before_after_conflicts_def
  extract_changes_def circular_conflict_def sort_conflicts_def conflict_key_less_def
  py_lower_def list_max_def timedelta_days_def DAY_US_def mk_decision_def
  format_decision_summary_def List.card_set

lemma example_conflicts:
  "map (\<lambda>c. (c_type c, c_severity c, c_requirement c, c_component c))
     (detect_conflicts ascii_db example_decisions)
   = [(''requirement_conflict'', ''warning'', Some ''REQ-1'', None),
      (''circular_change'', ''critical'', None, Some ''motor''),
      (''requirement_conflict'', ''critical'', Some ''REQ-1'', None)]"
  by (simp add: example_decisions_def conflict_eval regex_eval)

text \<open>
  C8 as stated fails for the circular changes. \<open>_detect_before_after_conflicts\<close> is called
  for the decisions of one component only, so two decisions that share the requirement
  \<open>REQ-1\<close> and no component, and that change a limit from 2.0 to 2.5 and back, raise no
  conflict at all, although the search extracts both changes. And for two decisions on the
  same component, the search takes \<open>Nm to 2.5\<close> and \<open>Nm to 2.0\<close> from the texts
  \<open>2.0 Nm to 2.5 Nm\<close> and \<open>2.5 Nm to 2.0 Nm\<close>, so that this reversal is not flagged
  either.
\<close>

theorem circular_change_not_flagged:
  "findall_changes ascii_db (cps ''limit 2.0 to 2.5'') = [(cps ''2.0'', cps ''2.5'')]
   \<and> findall_changes ascii_db (cps ''limit 2.5 to 2.0'') = [(cps ''2.5'', cps ''2.0'')]
   \<and> detect_conflicts ascii_db
         [mk_decision 2 3600000000 ''limit 2.5 to 2.0'' [] [''REQ-1''],
          mk_decision 1 0 ''limit 2.0 to 2.5'' [] [''REQ-1'']] = []
   \<and> findall_changes ascii_db (cps ''2.0 Nm to 2.5 Nm'') = [(cps ''Nm'', cps ''2.5'')]
   \<and> findall_changes ascii_db (cps ''2.5 Nm to 2.0 Nm'') = [(cps ''Nm'', cps ''2.0'')]
   \<and> detect_conflicts ascii_db
         [mk_decision 2 3600000000 ''2.5 Nm to 2.0 Nm'' [''motor''] [],
          mk_decision 1 0 ''2.0 Nm to 2.5 Nm'' [''motor''] []] = []"
  by (simp add: conflict_eval regex_eval)

text \<open>
  C8, amended. In the result of \<open>_detect_conflicts\<close>, every conflict of the type
  \<open>requirement_conflict\<close> is between two decisions that reference the same requirement, of
  which the second is not older than the first, and whose lower-cased texts hold the two
  words of an antonym pair; its severity is \<open>critical\<close> when the second decision is less
  than 24 hours after the first and \<open>warning\<close> otherwise. Every conflict of the type
  \<open>circular_change\<close> is \<open>critical\<close> and is between two decisions that affect the same
  component, from whose texts the search extracts, after lower-casing, a change and its
  reverse. Conversely, whenever two decisions at different places of the list affect the
  same component and the search extracts a change from the first and its reverse from the
  second, a \<open>critical\<close> conflict of the type \<open>circular_change\<close> is flagged for that
  component and these two decisions.
\<close>

theorem conflict_severity:
  "(\<forall>c\<in>set (detect_conflicts db decisions). c_type c = ''requirement_conflict'' \<longrightarrow>
      (\<exists>requirement previous current pattern.
          previous \<in> set decisions \<and> current \<in> set decisions
          \<and> requirement \<in> set (d_referenced_reqs previous)
          \<and> requirement \<in> set (d_referenced_reqs current)
          \<and> pattern \<in> set contradiction_patterns
          \<and> contradicts db pattern previous current
          \<and> d_timestamp previous \<le> d_timestamp current
          \<and> c_requirement c = Some requirement
          \<and> c_decisions c = [format_decision_summary previous, format_decision_summary current]
          \<and> c_severity c = (if d_timestamp current - d_timestamp previous < DAY_US
                             then ''critical'' else ''warning'')))
   \<and> (\<forall>c\<in>set (detect_conflicts db decisions). c_type c = ''circular_change'' \<longrightarrow>
        c_severity c = ''critical''
        \<and> (\<exists>component d1 d2. d1 \<in> set decisions \<and> d2 \<in> set decisions
             \<and> component \<in> set (d_affected_components d1)
             \<and> component \<in> set (d_affected_components d2)
             \<and> c_component c = Some component
             \<and> c_decisions c = [format_decision_summary d1, format_decision_summary d2]
             \<and> (\<exists>change1\<in>set (extract_changes db [d1]).
                   \<exists>change2\<in>set (extract_changes db [d2]).
                     ch_before change1 = ch_after change2
                     \<and> ch_after change1 = ch_before change2)))
   \<and> (\<forall>i j component change1 change2.
          i < j \<and> j < length decisions
          \<and> component \<in> set (d_affected_components (decisions ! i))
          \<and> component \<in> set (d_affected_components (decisions ! j))
          \<and> change1 \<in> set (extract_changes db [decisions ! i])
          \<and> change2 \<in> set (extract_changes db [decisions ! j])
          \<and> ch_before change1 = ch_after change2 \<and> ch_after change1 = ch_before change2
        \<longrightarrow> (\<exists>c\<in>set (detect_conflicts db decisions).
               c_type c = ''circular_change'' \<and> c_severity c = ''critical''
               \<and> c_component c = Some component
               \<and> c_decisions c = [format_decision_summary (decisions ! i),
                                  format_decision_summary (decisions ! j)]))"
proof (intro conjI ballI impI allI)
  fix c
  assume "c \<in> set (detect_conflicts db decisions)" and "c_type c = ''requirement_conflict''"
  then show "\<exists>requirement previous current pattern.
          previous \<in> set decisions \<and> current \<in> set decisions
          \<and> requirement \<in> set (d_referenced_reqs previous)
          \<and> requirement \<in> set (d_referenced_reqs current)
          \<and> pattern \<in> set contradiction_patterns
          \<and> contradicts db pattern previous current
          \<and> d_timestamp previous \<le> d_timestamp current
          \<and> c_requirement c = Some requirement
          \<and> c_decisions c = [format_decision_summary previous, format_decision_summary current]
          \<and> c_severity c = (if d_timestamp current - d_timestamp previous < DAY_US
                             then ''critical'' else ''warning'')"
    by (rule requirement_conflicts_of_detect)
next
  fix c
  assume c: "c \<in> set (detect_conflicts db decisions)" "c_type c = ''circular_change''"
  from circular_changes_of_detect [OF c] show "c_severity c = ''critical''" by simp
  from circular_changes_of_detect [OF c]
  show "\<exists>component d1 d2. d1 \<in> set decisions \<and> d2 \<in> set decisions
             \<and> component \<in> set (d_affected_components d1)
             \<and> component \<in> set (d_affected_components d2)
             \<and> c_component c = Some component
             \<and> c_decisions c = [format_decision_summary d1, format_decision_summary d2]
             \<and> (\<exists>change1\<in>set (extract_changes db [d1]).
                   \<exists>change2\<in>set (extract_changes db [d2]).
                     ch_before change1 = ch_after change2
                     \<and> ch_after change1 = ch_before change2)"
    by simp
next
  fix i j component change1 change2
  assume "i < j \<and> j < length decisions
          \<and> component \<in> set (d_affected_components (decisions ! i))
          \<and> component \<in> set (d_affected_components (decisions ! j))
          \<and> change1 \<in> set (extract_changes db [decisions ! i])
          \<and> change2 \<in> set (extract_changes db [decisions ! j])
          \<and> ch_before change1 = ch_after change2 \<and> ch_after change1 = ch_before change2"
  then show "\<exists>c\<in>set (detect_conflicts db decisions).
               c_type c = ''circular_change'' \<and> c_severity c = ''critical''
               \<and> c_component c = Some component
               \<and> c_decisions c = [format_decision_summary (decisions ! i),
                                  format_decision_summary (decisions ! j)]"
    using circular_change_is_flagged [of i j decisions component change1 db change2] by blast
qed

theorem conflict_severity_witness:
  "(\<exists>c\<in>set (detect_conflicts ascii_db example_decisions).
      c_type c = ''requirement_conflict'' \<and> c_severity c = ''warning''
      \<and> (\<exists>previous\<in>set example_decisions. \<exists>current\<in>set example_decisions.
            c_decisions c = [format_decision_summary previous, format_decision_summary current]
            \<and> DAY_US \<le> d_timestamp current - d_timestamp previous))
   \<and> (\<exists>c\<in>set (detect_conflicts ascii_db example_decisions).
        c_type c = ''requirement_conflict'' \<and> c_severity c = ''critical''
        \<and> (\<exists>previous\<in>set example_decisions. \<exists>current\<in>set example_decisions.
              c_decisions c = [format_decision_summary previous, format_decision_summary current]
              \<and> d_timestamp current - d_timestamp previous < DAY_US))
   \<and> (\<exists>c\<in>set (detect_conflicts ascii_db example_decisions).
        c_type c = ''circular_change'' \<and> c_severity c = ''critical''
        \<and> c_component c = Some ''motor''
        \<and> c_decisions c = [format_decision_summary (example_decisions ! 1),
                           format_decision_summary (example_decisions ! 2)])"
proof -
  let ?out = "detect_conflicts ascii_db example_decisions"
  note inst = conflict_severity [of ascii_db example_decisions]
  from example_conflicts obtain c1 c2 c3 where out: "?out = [c1, c2, c3]"
    and c1: "c_type c1 = ''requirement_conflict''" "c_severity c1 = ''warning''"
    and c2: "c_type c2 = ''circular_change''"
    and c3: "c_type c3 = ''requirement_conflict''" "c_severity c3 = ''critical''"
    by (auto simp add: map_eq_Cons_conv)
  from inst have req: "\<forall>c\<in>set ?out. c_type c = ''requirement_conflict'' \<longrightarrow>
      (\<exists>previous\<in>set example_decisions. \<exists>current\<in>set example_decisions.
          c_decisions c = [format_decision_summary previous, format_decision_summary current]
          \<and> c_severity c = (if d_timestamp current - d_timestamp previous < DAY_US
                             then ''critical'' else ''warning''))"
    by blast
  from out have mem: "c1 \<in> set ?out" "c2 \<in> set ?out" "c3 \<in> set ?out" by simp_all
  from req [rule_format, OF mem(1) c1(1)] obtain p1 q1
    where pq1: "p1 \<in> set example_decisions" "q1 \<in> set example_decisions"
      "c_decisions c1 = [format_decision_summary p1, format_decision_summary q1]"
      "c_severity c1 = (if d_timestamp q1 - d_timestamp p1 < DAY_US
                        then ''critical'' else ''warning'')"
    by blast
  from pq1(4) c1(2) have "DAY_US \<le> d_timestamp q1 - d_timestamp p1"
    by (simp split: if_splits)
  with pq1(1,2,3)
  have w: "\<exists>previous\<in>set example_decisions. \<exists>current\<in>set example_decisions.
          c_decisions c1 = [format_decision_summary previous, format_decision_summary current]
          \<and> DAY_US \<le> d_timestamp current - d_timestamp previous"
    by blast
  from req [rule_format, OF mem(3) c3(1)] obtain p3 q3
    where pq3: "p3 \<in> set example_decisions" "q3 \<in> set example_decisions"
      "c_decisions c3 = [format_decision_summary p3, format_decision_summary q3]"
      "c_severity c3 = (if d_timestamp q3 - d_timestamp p3 < DAY_US
                        then ''critical'' else ''warning'')"
    by blast
  from pq3(4) c3(2) have "d_timestamp q3 - d_timestamp p3 < DAY_US"
    by (simp split: if_splits)
  with pq3(1,2,3)
  have k: "\<exists>previous\<in>set example_decisions. \<exists>current\<in>set example_decisions.
          c_decisions c3 = [format_decision_summary previous, format_decision_summary current]
          \<and> d_timestamp current - d_timestamp previous < DAY_US"
    by blast
  from inst have circ: "\<forall>c\<in>set ?out. c_type c = ''circular_change'' \<longrightarrow>
      c_severity c = ''critical''"
    by blast
  from circ [rule_format, OF mem(2) c2] have "c_severity c2 = ''critical''" .
  let ?x = "\<lparr>ch_decision = example_decisions ! 1, ch_before = cps ''2.5nm'',
             ch_after = cps ''2.0nm'', ch_timestamp = 3600000000\<rparr>"
  let ?y = "\<lparr>ch_decision = example_decisions ! 2, ch_before = cps ''2.0nm'',
             ch_after = cps ''2.5nm'', ch_timestamp = 0\<rparr>"
  have x: "?x \<in> set (extract_changes ascii_db [example_decisions ! 1])"
    by (simp add: example_decisions_def extract_changes_def mk_decision_def py_lower_def
        regex_eval)
  have y: "?y \<in> set (extract_changes ascii_db [example_decisions ! 2])"
    by (simp add: example_decisions_def extract_changes_def mk_decision_def py_lower_def
        regex_eval)
  have m: "''motor'' \<in> set (d_affected_components (example_decisions ! 1))"
    "''motor'' \<in> set (d_affected_components (example_decisions ! 2))"
    "(1::nat) < 2" "2 < length example_decisions"
    by (simp_all add: example_decisions_def mk_decision_def)
  from inst have "\<forall>i j component change1 change2.
          i < j \<and> j < length example_decisions
          \<and> component \<in> set (d_affected_components (example_decisions ! i))
          \<and> component \<in> set (d_affected_components (example_decisions ! j))
          \<and> change1 \<in> set (extract_changes ascii_db [example_decisions ! i])
          \<and> change2 \<in> set (extract_changes ascii_db [example_decisions ! j])
          \<and> ch_before change1 = ch_after change2 \<and> ch_after change1 = ch_before change2
        \<longrightarrow> (\<exists>c\<in>set ?out.
               c_type c = ''circular_change'' \<and> c_severity c = ''critical''
               \<and> c_component c = Some component
               \<and> c_decisions c = [format_decision_summary (example_decisions ! i),
                                  format_decision_summary (example_decisions ! j)])"
    by blast
  from this [rule_format, of 1 2 "''motor''" ?x ?y] x y m
  have f: "\<exists>c\<in>set ?out.
        c_type c = ''circular_change'' \<and> c_severity c = ''critical''
        \<and> c_component c = Some ''motor''
        \<and> c_decisions c = [format_decision_summary (example_decisions ! 1),
                           format_decision_summary (example_decisions ! 2)]"
    by simp
  from mem(1) c1 w have "\<exists>c\<in>set ?out.
      c_type c = ''requirement_conflict'' \<and> c_severity c = ''warning''
      \<and> (\<exists>previous\<in>set example_decisions. \<exists>current\<in>set example_decisions.
            c_decisions c = [format_decision_summary previous, format_decision_summary current]
            \<and> DAY_US \<le> d_timestamp current - d_timestamp previous)"
    by blast
  moreover from mem(3) c3 k have "\<exists>c\<in>set ?out.
        c_type c = ''requirement_conflict'' \<and> c_severity c = ''critical''
        \<and> (\<exists>previous\<in>set example_decisions. \<exists>current\<in>set example_decisions.
              c_decisions c = [format_decision_summary previous, format_decision_summary current]
              \<and> d_timestamp current - d_timestamp previous < DAY_US)"
    by blast
  ultimately show ?thesis using f by blast
qed

section \<open>Missing stakeholders\<close>

lemma missing_user_ids:
  "set (map m_user_id (missing_for users messages decision))
   = {user_id. \<exists>user_data component. (user_id, user_data) \<in> set users
         \<and> component \<in> set (d_affected_components decision)
         \<and> component \<in> set (u_owned_components user_data)}
     - {d_author_user_id decision}
     - thread_participants messages (d_thread_id decision)"
  by (auto simp add: missing_for_def component_owners_def Let_def image_iff split: if_splits)
     force+

text \<open>
  C7. The users reported missing are the owners of an affected component, without the author
  and the thread participants (\<open>missing_user_ids\<close>). The severity, however, counts one
  entry per owned component: a single missing engineer who owns three affected components
  makes the gap \<open>critical\<close>.
\<close>

theorem one_owner_counted_three_times:
  "map g_severity (detect_missing_stakeholders [carol] [] [three_components]) = [''critical'']
  \<and> map (\<lambda>g. remdups (map m_user_id (g_missing_stakeholders g)))
       (detect_missing_stakeholders [carol] [] [three_components]) = [[''carol'']]
  \<and> \<not> ends_with (u_role carol) ''Lead''"
  by (simp add: detect_missing_stakeholders_def stakeholder_gap_for_def missing_for_def
      component_owners_def thread_participants_def users_by_id_def role_of_def sort_desc_def
      carol_def three_components_def ends_with_def Let_def)

section \<open>Hybrid retrieval\<close>

lemma py_prefix_subset: "set (py_prefix xs n) \<subseteq> set xs"
  by (auto simp add: py_prefix_def dest: in_set_takeD)

lemma score_candidates_from:
  "score_candidates q cs = Inr rs \<Longrightarrow>
     \<forall>r\<in>set rs. \<exists>c\<in>set cs. \<exists>sim emb. r = result_with c sim emb"
proof (induction cs arbitrary: rs)
  case Nil
  then show ?case by simp
next
  case (Cons c cs)
  from Cons.prems obtain sim rest where rest: "score_candidates q cs = Inr rest"
    and rs: "rs = result_with c sim (r_embedding c) # rest"
    by (auto split: sum.splits)
  from Cons.IH [OF rest] rs show ?case by auto
qed

lemma semantic_search_from:
  assumes "semantic_search encode query_text candidates limit = Inr results"
  shows "\<forall>r\<in>set results. \<exists>c\<in>set candidates. \<exists>sim emb. r = result_with c sim emb"
proof (cases "candidates = []")
  case True
  with assms show ?thesis by (simp add: semantic_search_def)
next
  case False
  with assms obtain scored where sc: "score_candidates (encode query_text) candidates = Inr scored"
    and res: "results = py_prefix (sort_key (\<lambda>x. - rr_similarity_score x) scored) limit"
    by (auto simp add: semantic_search_def Let_def split: sum.splits)
  from res py_prefix_subset [of "sort_key (\<lambda>x. - rr_similarity_score x) scored" limit]
  have "set results \<subseteq> set scored" by simp
  with score_candidates_from [OF sc] show ?thesis by blast
qed

lemma sql_filter_recency:
  assumes "sql_filter db_pool now comps days author dtype limit = Inr candidates"
  shows "sorted_wrt (\<lambda>a b. r_timestamp a \<ge> r_timestamp b) candidates"
proof -
  from assms obtain matching
    where c: "candidates = take (nat limit) (sort_key (\<lambda>row. - r_timestamp row) matching)"
    by (auto simp add: sql_filter_def Let_def split: option.splits if_splits)
  have "sorted (map (\<lambda>row. - r_timestamp row) (sort_key (\<lambda>row. - r_timestamp row) matching))"
    by (rule sorted_sort_key)
  then have "sorted_wrt (\<lambda>a b. r_timestamp a \<ge> r_timestamp b)
               (sort_key (\<lambda>row. - r_timestamp row) matching)"
    by (simp add: sorted_wrt_map sorted_wrt_iff_nth_less) 
  with c show ?thesis by (simp add: sorted_wrt_take)
qed

lemma sql_filter_limit:
  assumes "sql_filter db_pool now comps days author dtype limit = Inr candidates"
  shows "0 \<le> limit"
  using assms by (auto simp add: sql_filter_def split: option.splits if_splits)

lemma strip_empty_iff: "strip s = [] \<longleftrightarrow> (\<forall>c\<in>set s. is_space c)"
proof
  assume e: "strip s = []"
  then have "dropWhile is_space (rev (dropWhile is_space s)) = []"
    by (simp only: strip_def rev_is_Nil_conv)
  then have "\<forall>c\<in>set (rev (dropWhile is_space s)). is_space c"
    by (simp only: dropWhile_eq_Nil_conv)
  then have a: "\<forall>c\<in>set (dropWhile is_space s). is_space c"
    by (simp only: set_rev)
  have "dropWhile is_space s = []"
  proof (rule ccontr)
    assume n: "dropWhile is_space s \<noteq> []"
    then have "\<not> is_space (hd (dropWhile is_space s))" by (rule hd_dropWhile)
    moreover from n have "hd (dropWhile is_space s) \<in> set (dropWhile is_space s)" by simp
    ultimately show False using a by blast
  qed
  then show "\<forall>c\<in>set s. is_space c" by (simp add: dropWhile_eq_Nil_conv)
next
  assume "\<forall>c\<in>set s. is_space c"
  then have d: "dropWhile is_space s = []" by (simp add: dropWhile_eq_Nil_conv)
  show "strip s = []" by (simp only: strip_def d rev.simps dropWhile.simps)
qed

text \<open>
  C6. Whenever \<open>hybrid_search\<close> returns, every result is built from one of the candidates
  that \<open>sql_filter\<close> delivered for the limit \<open>min(100, limit * 5)\<close>; and when the query
  text is empty or consists of white space only (ASCII or not), the results are the first
  \<open>limit\<close> candidates, newest first, the statistics report 0 for the semantic stage and
  the query type \<open>sql_only\<close>.
\<close>

theorem hybrid_results_from_candidates:
  assumes "hybrid_search db_pool encode perf now user_id query_text user_components
             time_filter_days limit = Inr (results, stats)"
  shows "\<exists>comps candidates.
           resolve_components db_pool user_id user_components = Inr comps
           \<and> sql_filter db_pool now comps time_filter_days None None (min 100 (limit * 5))
               = Inr candidates
           \<and> (\<forall>r\<in>set results. \<exists>c\<in>set candidates. \<exists>sim emb. r = result_with c sim emb)
           \<and> ((\<forall>c\<in>set query_text. is_space c) \<longrightarrow>
                 results = map sql_only_result (take (nat limit) candidates)
                 \<and> sorted_wrt (\<lambda>a b. rr_timestamp a \<ge> rr_timestamp b) results
                 \<and> semantic_search_time_ms stats = 0
                 \<and> query_type stats = ''sql_only'')"
proof -
  from assms obtain comps where comps:
    "resolve_components db_pool user_id user_components = Inr comps"
    by (auto simp add: hybrid_search_def Let_def split: sum.splits)
  from assms comps obtain candidates where cands:
    "sql_filter db_pool now comps time_filter_days None None (min 100 (limit * 5))
       = Inr candidates"
    by (auto simp add: hybrid_search_def Let_def split: sum.splits)
  from sql_filter_limit [OF cands] have limit: "0 \<le> limit" by simp
  show ?thesis
  proof (cases "strip query_text = []")
    case True
    with assms comps cands limit
    have res: "results = map sql_only_result (take (nat limit) candidates)"
      and st: "semantic_search_time_ms stats = 0" "query_type stats = ''sql_only''"
      by (auto simp add: hybrid_search_def Let_def py_prefix_def)
    have "\<forall>r\<in>set results. \<exists>c\<in>set candidates. \<exists>sim emb. r = result_with c sim emb"
      unfolding res by (auto simp add: sql_only_result_def dest: in_set_takeD)
    moreover have "sorted_wrt (\<lambda>a b. rr_timestamp a \<ge> rr_timestamp b) results"
      unfolding res using sql_filter_recency [OF cands]
      by (simp add: sorted_wrt_map sorted_wrt_take sql_only_result_def result_with_def)
    ultimately show ?thesis using comps cands res st by blast
  next
    case False
    then have nw: "\<not> (\<forall>c\<in>set query_text. is_space c)"
      by (simp add: strip_empty_iff)
    from False assms comps cands
    have "semantic_search encode query_text candidates limit = Inr results"
      by (auto simp add: hybrid_search_def Let_def split: sum.splits)
    from semantic_search_from [OF this] nw comps cands show ?thesis by blast
  qed
qed

theorem hybrid_results_from_candidates_witness:
  "hybrid_search (Some db0) (\<lambda>q. [1, 0]) real 40 ''alice'' [0xA0, 0x2003, 0x20] None 30 2
   = Inr ([sql_only_result (mk_row 3 30 ''embedded''), sql_only_result (mk_row 1 10 ''embedded'')],
          \<lparr>total_time_ms = 5000, sql_filter_time_ms = 3000, semantic_search_time_ms = 0,
           candidates_found = 3, final_results = 2, query_type = ''sql_only''\<rparr>)
   \<and> sql_filter (Some db0) 40 [''motor''] 30 None None 10
     = Inr [mk_row 3 30 ''embedded'', mk_row 1 10 ''embedded'', mk_row 4 5 ''embedded'']"
proof -
  have f: "sql_filter (Some db0) 40 [''motor''] 30 None None 10
     = Inr [mk_row 3 30 ''embedded'', mk_row 1 10 ''embedded'', mk_row 4 5 ''embedded'']"
    by (simp add: sql_filter_def db0_def mk_row_def)
  have u: "get_user_components (Some db0) ''alice'' = Inr [''motor'']"
    by (simp add: get_user_components_def db0_def)
  have w: "\<forall>c\<in>set [0xA0, 0x2003, 0x20]. is_space c"
    by (simp add: is_space_def)
  have h: "hybrid_search (Some db0) (\<lambda>q. [1, 0]) real 40 ''alice'' [0xA0, 0x2003, 0x20] None 30 2
   = Inr ([sql_only_result (mk_row 3 30 ''embedded''), sql_only_result (mk_row 1 10 ''embedded'')],
          \<lparr>total_time_ms = 5000, sql_filter_time_ms = 3000, semantic_search_time_ms = 0,
           candidates_found = 3, final_results = 2, query_type = ''sql_only''\<rparr>)"
    using w
    by (simp add: hybrid_search_def resolve_components_def u f strip_empty_iff
        py_prefix_def Let_def del: set_simps)
  from hybrid_results_from_candidates [OF h] w f h show ?thesis by simp
qed

section \<open>The ingest pipeline\<close>






















end
